theory Spec2Isabelle
  imports Complex_Main "HOL-Library.Monad_Syntax"
begin

section \<open>Floating-point values\<close>

text \<open>
  The arrays of the program hold IEEE doubles.  They are modelled as exact reals extended
  with the special values the code tests for or produces: not-a-number and the two
  infinities.  Rounding, overflow and the sign of zero are outside the model (a zero
  divisor counts as positive zero).
\<close>

datatype fl = NaN | PInf | NInf | Fin real

fun isnan :: "fl \<Rightarrow> bool" where
  "isnan NaN = True"
| "isnan _ = False"

fun fneg :: "fl \<Rightarrow> fl" where
  "fneg NaN = NaN"
| "fneg PInf = NInf"
| "fneg NInf = PInf"
| "fneg (Fin a) = Fin (- a)"

fun fadd :: "fl \<Rightarrow> fl \<Rightarrow> fl" where
  "fadd NaN _ = NaN"
| "fadd _ NaN = NaN"
| "fadd PInf NInf = NaN"
| "fadd NInf PInf = NaN"
| "fadd PInf _ = PInf"
| "fadd _ PInf = PInf"
| "fadd NInf _ = NInf"
| "fadd _ NInf = NInf"
| "fadd (Fin a) (Fin b) = Fin (a + b)"

definition fsub :: "fl \<Rightarrow> fl \<Rightarrow> fl" where
  "fsub a b = fadd a (fneg b)"

fun fabs :: "fl \<Rightarrow> fl" where
  "fabs NaN = NaN"
| "fabs PInf = PInf"
| "fabs NInf = PInf"
| "fabs (Fin a) = Fin \<bar>a\<bar>"

text \<open>The sign of a value that is not NaN: \<open>-1\<close>, \<open>0\<close> or \<open>1\<close>.\<close>

fun fsign :: "fl \<Rightarrow> int" where
  "fsign NaN = 0"
| "fsign PInf = 1"
| "fsign NInf = - 1"
| "fsign (Fin a) = (if a < 0 then - 1 else if a = 0 then 0 else 1)"

definition signed_inf :: "int \<Rightarrow> fl" where
  "signed_inf s = (if s < 0 then NInf else if s = 0 then NaN else PInf)"

fun fmul :: "fl \<Rightarrow> fl \<Rightarrow> fl" where
  "fmul NaN _ = NaN"
| "fmul _ NaN = NaN"
| "fmul (Fin a) (Fin b) = Fin (a * b)"
| "fmul x y = signed_inf (fsign x * fsign y)"

fun fdiv :: "fl \<Rightarrow> fl \<Rightarrow> fl" where
  "fdiv NaN _ = NaN"
| "fdiv _ NaN = NaN"
| "fdiv (Fin a) (Fin b) = (if b = 0 then signed_inf (fsign (Fin a)) else Fin (a / b))"
| "fdiv (Fin a) _ = Fin 0"
| "fdiv x (Fin b) = signed_inf (fsign x * (if b < 0 then - 1 else 1))"
| "fdiv _ _ = NaN"

text \<open>Comparisons: every comparison with NaN is false.\<close>

fun flt :: "fl \<Rightarrow> fl \<Rightarrow> bool" where
  "flt (Fin a) (Fin b) = (a < b)"
| "flt NInf (Fin b) = True"
| "flt NInf PInf = True"
| "flt (Fin a) PInf = True"
| "flt _ _ = False"

fun feq :: "fl \<Rightarrow> fl \<Rightarrow> bool" where
  "feq (Fin a) (Fin b) = (a = b)"
| "feq PInf PInf = True"
| "feq NInf NInf = True"
| "feq _ _ = False"

definition fle :: "fl \<Rightarrow> fl \<Rightarrow> bool" where
  "fle a b = (flt a b \<or> feq a b)"

text \<open>\<open>np.minimum\<close>: the smaller value, NaN if either argument is NaN.\<close>

definition np_minimum :: "fl \<Rightarrow> fl \<Rightarrow> fl" where
  "np_minimum a b = (if isnan a then a else if isnan b then b else if flt b a then b else a)"

text \<open>The zero of \<open>np.zeros\<close>.\<close>

instantiation fl :: zero
begin

definition zero_fl :: fl where
  "zero_fl = Fin 0"

instance ..

end

section \<open>Python containers and errors\<close>

text \<open>
  A call that raises (\<open>IndexError\<close> on a list index out of range, \<open>ValueError\<close> on
  shapes that do not broadcast or on an all-NaN slice) returns \<open>None\<close>.
  A two-dimensional array is the list of its rows; its second dimension is the length of
  its first row (an array without rows is taken to have no columns).
\<close>

definition nth_opt :: "'a list \<Rightarrow> nat \<Rightarrow> 'a option" where
  "nth_opt xs i = (if i < length xs then Some (xs ! i) else None)"

definition shape1 :: "'a list list \<Rightarrow> nat" where
  "shape1 a = (case a of [] \<Rightarrow> 0 | r # _ \<Rightarrow> length r)"

definition column :: "'a list list \<Rightarrow> nat \<Rightarrow> 'a list" where
  "column a ind = map (\<lambda>row. row ! ind) a"

definition set_column :: "'a list list \<Rightarrow> nat \<Rightarrow> 'a list \<Rightarrow> 'a list list" where
  "set_column a ind col = map (\<lambda>(row, v). row[ind := v]) (zip a col)"

definition zeros_like :: "fl list list \<Rightarrow> fl list list" where
  "zeros_like a = map (map (\<lambda>_. 0)) a"

section \<open>The model interface and the bounds\<close>

text \<open>
  \<open>NumericalDerivativeInterface\<close>: what the differentiation routine asks of the model.
  The parameter transformation works on a parameter vector (in place in the source); its
  first argument stands for the kernel's data pointer.
\<close>

record model =
  numdiff_get_max_step :: "fl list"
  numdiff_get_scaling_factors :: "fl list"
  numdiff_use_bounds :: "bool list"
  numdiff_use_upper_bounds :: "bool list"
  numdiff_use_lower_bounds :: "bool list"
  numdiff_parameter_transformation :: "nat \<Rightarrow> fl list \<Rightarrow> fl list"

text \<open>Each bound is a scalar or a vector with one value per problem instance.\<close>

datatype bound = Scalar fl | PerProblem "fl list"

text \<open>
  A bound combined with a column of \<open>d\<close> problem values: a scalar and a vector of length
  one are broadcast, a vector of length \<open>d\<close> is taken as it is, any other length raises
  (in the arithmetic or in the assignment to the column).
\<close>

definition broadcast_bound :: "bound \<Rightarrow> nat \<Rightarrow> fl list option" where
  "broadcast_bound b d =
     (case b of
        Scalar v \<Rightarrow> Some (replicate d v)
      | PerProblem vs \<Rightarrow>
          if length vs = d then Some vs
          else if length vs = 1 then Some (replicate d (vs ! 0))
          else None)"

section \<open>The initial step size\<close>

text \<open>The body of the loop of \<open>_get_initial_step_size\<close> for parameter \<open>ind\<close>: the new column.\<close>

definition initial_step_column ::
  "model \<Rightarrow> fl list list \<Rightarrow> bound list \<Rightarrow> bound list \<Rightarrow> nat \<Rightarrow> fl list option" where
  "initial_step_column m parameters lower_bounds upper_bounds ind =
     do {
       max_step \<leftarrow> Some (numdiff_get_max_step m);
       use_bounds \<leftarrow> nth_opt (numdiff_use_bounds m) ind;
       if use_bounds then
         do {
           use_lower \<leftarrow> nth_opt (numdiff_use_lower_bounds m) ind;
           use_upper \<leftarrow> nth_opt (numdiff_use_upper_bounds m) ind;
           minimum_allowed_step \<leftarrow>
             (if use_upper \<and> \<not> use_lower then
                do {
                  ub \<leftarrow> nth_opt upper_bounds ind;
                  u \<leftarrow> broadcast_bound ub (length parameters);
                  s \<leftarrow> nth_opt (numdiff_get_scaling_factors m) ind;
                  Some (map (\<lambda>(u, x). fmul (fabs (fsub u x)) s) (zip u (column parameters ind)))
                }
              else if use_lower \<and> \<not> use_upper then
                do {
                  lb \<leftarrow> nth_opt lower_bounds ind;
                  l \<leftarrow> broadcast_bound lb (length parameters);
                  s \<leftarrow> nth_opt (numdiff_get_scaling_factors m) ind;
                  Some (map (\<lambda>(l, x). fmul (fabs (fsub x l)) s) (zip l (column parameters ind)))
                }
              else
                do {
                  lb \<leftarrow> nth_opt lower_bounds ind;
                  l \<leftarrow> broadcast_bound lb (length parameters);
                  ub \<leftarrow> nth_opt upper_bounds ind;
                  u \<leftarrow> broadcast_bound ub (length parameters);
                  s \<leftarrow> nth_opt (numdiff_get_scaling_factors m) ind;
                  Some (map (\<lambda>(l, u, x). fmul (np_minimum (fabs (fsub x l)) (fabs (fsub u x))) s)
                         (zip l (zip u (column parameters ind))))
                });
           ms \<leftarrow> nth_opt max_step ind;
           Some (map (\<lambda>a. np_minimum a ms) minimum_allowed_step)
         }
       else
         do {
           ms \<leftarrow> nth_opt max_step ind;
           Some (replicate (length parameters) ms)
         }
     }"

text \<open>The loop \<open>for ind in range(parameters.shape[1])\<close>, writing column after column.\<close>

fun initial_step_loop ::
  "model \<Rightarrow> fl list list \<Rightarrow> bound list \<Rightarrow> bound list \<Rightarrow> nat list \<Rightarrow> fl list list
     \<Rightarrow> fl list list option" where
  "initial_step_loop m parameters lower_bounds upper_bounds [] initial_step = Some initial_step"
| "initial_step_loop m parameters lower_bounds upper_bounds (ind # inds) initial_step =
     do {
       col \<leftarrow> initial_step_column m parameters lower_bounds upper_bounds ind;
       initial_step_loop m parameters lower_bounds upper_bounds inds
         (set_column initial_step ind col)
     }"

definition get_initial_step_size ::
  "model \<Rightarrow> fl list list \<Rightarrow> bound list \<Rightarrow> bound list \<Rightarrow> fl list list option" where
  "get_initial_step_size m parameters lower_bounds upper_bounds =
     initial_step_loop m parameters lower_bounds upper_bounds [0..<shape1 parameters]
       (zeros_like parameters)"

section \<open>From the vector of lower-triangular entries to the matrix\<close>

text \<open>
  \<open>itertools.combinations_with_replacement(range(nmr_params), 2)\<close>, the coordinates for
  which the derivation kernel computes a derivative; the derivative of \<open>coords[k]\<close> is
  stored at linear index \<open>k\<close>.
\<close>

definition coords :: "nat \<Rightarrow> (nat \<times> nat) list" where
  "coords nmr_params = concat (map (\<lambda>x. map (\<lambda>y. (x, y)) [x..<nmr_params]) [0..<nmr_params])"

definition mat_set :: "'a list list \<Rightarrow> nat \<Rightarrow> nat \<Rightarrow> 'a \<Rightarrow> 'a list list" where
  "mat_set M i j v = M[i := (M ! i)[j := v]]"

text \<open>
  The loops of \<open>_results_vector_to_matrix\<close> for one vector (the leading axes of the array
  are handled alike, see below).  The state is the matrix and the counter \<open>ltr_ind\<close>;
  reading the vector beyond its end raises.
\<close>

fun fill_upper :: "'a list \<Rightarrow> nat \<Rightarrow> nat list \<Rightarrow> 'a list list \<Rightarrow> nat \<Rightarrow> ('a list list \<times> nat) option" where
  "fill_upper vec px [] M ltr_ind = Some (M, ltr_ind)"
| "fill_upper vec px (py # pys) M ltr_ind =
     do {
       v \<leftarrow> nth_opt vec ltr_ind;
       fill_upper vec px pys (mat_set (mat_set M px py v) py px v) (ltr_ind + 1)
     }"

fun fill_rows :: "'a list \<Rightarrow> nat \<Rightarrow> nat list \<Rightarrow> 'a list list \<Rightarrow> nat \<Rightarrow> ('a list list \<times> nat) option" where
  "fill_rows vec nmr_params [] M ltr_ind = Some (M, ltr_ind)"
| "fill_rows vec nmr_params (px # pxs) M ltr_ind =
     do {
       v \<leftarrow> nth_opt vec ltr_ind;
       (M', ltr_ind') \<leftarrow> fill_upper vec px [px + 1..<nmr_params] (mat_set M px px v) (ltr_ind + 1);
       fill_rows vec nmr_params pxs M' ltr_ind'
     }"

definition vector_to_matrix :: "'a::zero list \<Rightarrow> nat \<Rightarrow> 'a list list option" where
  "vector_to_matrix vec nmr_params =
     map_option fst
       (fill_rows vec nmr_params [0..<nmr_params]
          (replicate nmr_params (replicate nmr_params 0)) 0)"

text \<open>\<open>_results_vector_to_matrix\<close> on the vectors of all problems.\<close>

definition results_vector_to_matrix :: "'a::zero list list \<Rightarrow> nat \<Rightarrow> 'a list list list option" where
  "results_vector_to_matrix vectors nmr_params =
     those (map (\<lambda>vec. vector_to_matrix vec nmr_params) vectors)"

text \<open>
  \<open>finalize_derivatives\<close>: the matrices times \<open>np.outer(parameter_scalings,
  parameter_scalings)\<close>.  The product broadcasts when the two shapes agree or one of them
  is \<open>1 \<times> 1\<close>, and raises otherwise.
\<close>

definition outer :: "fl list \<Rightarrow> fl list \<Rightarrow> fl list list" where
  "outer a b = map (\<lambda>x. map (\<lambda>y. fmul x y) b) a"

definition mat_mul_elementwise :: "fl list list \<Rightarrow> fl list list \<Rightarrow> fl list list" where
  "mat_mul_elementwise A B = map (\<lambda>(ra, rb). map (\<lambda>(x, y). fmul x y) (zip ra rb)) (zip A B)"

definition broadcast_mul :: "nat \<Rightarrow> fl list list \<Rightarrow> fl list list \<Rightarrow> fl list list option" where
  "broadcast_mul nmr_params A B =
     (if length B = nmr_params then Some (mat_mul_elementwise A B)
      else if length B = 1 then Some (map (map (\<lambda>x. fmul x (B ! 0 ! 0))) A)
      else if nmr_params = 1 then Some (map (map (\<lambda>y. fmul (A ! 0 ! 0) y)) B)
      else None)"

definition finalize_derivatives :: "fl list \<Rightarrow> nat \<Rightarrow> fl list list \<Rightarrow> fl list list list option" where
  "finalize_derivatives parameter_scalings nmr_params derivatives =
     do {
       matrices \<leftarrow> results_vector_to_matrix derivatives nmr_params;
       those (map (\<lambda>M. broadcast_mul nmr_params M (outer parameter_scalings parameter_scalings))
                matrices)
     }"


section \<open>The central-difference kernel\<close>

text \<open>
  The objective function and the parameter transformation receive the kernel's \<open>data\<close>
  pointer; it is represented by the index of the problem instance.  Only the first work
  item of a work group is modelled (the others cooperate in the evaluation of the objective
  function and write nothing).
\<close>

type_synonym objective = "nat \<Rightarrow> fl list \<Rightarrow> fl"

text \<open>\<open>_eval_step\<close>: the objective at the transformed, perturbed point.\<close>

definition eval_step ::
  "(nat \<Rightarrow> fl list \<Rightarrow> fl list) \<Rightarrow> objective \<Rightarrow> nat \<Rightarrow> fl list \<Rightarrow> nat \<Rightarrow> fl \<Rightarrow> nat \<Rightarrow> fl \<Rightarrow> fl" where
  "eval_step transform objective_func data x_input perturb_dim_0 perturb_0 perturb_dim_1 perturb_1 =
     (let x_tmp = x_input;
          x_tmp = x_tmp[perturb_dim_0 := fadd (x_tmp ! perturb_dim_0) perturb_0];
          x_tmp = x_tmp[perturb_dim_1 := fadd (x_tmp ! perturb_dim_1) perturb_1]
      in objective_func data (transform data x_tmp))"

text \<open>
  One pass of the loop of \<open>_compute_steps\<close>: the raw central difference of the Hessian
  element \<open>(px, py)\<close> at step index \<open>step_ind\<close>.
\<close>

definition compute_step_value ::
  "(nat \<Rightarrow> fl list \<Rightarrow> fl list) \<Rightarrow> objective \<Rightarrow> real \<Rightarrow> nat \<Rightarrow> fl list \<Rightarrow> fl \<Rightarrow> nat \<Rightarrow> nat
     \<Rightarrow> fl list \<Rightarrow> fl list \<Rightarrow> nat \<Rightarrow> fl" where
  "compute_step_value transform objective_func step_ratio data x_input f_x_input px py
       parameter_scalings_inv initial_step step_ind =
     (if px = py then
        (let step_x = fdiv (initial_step ! px) (Fin (step_ratio ^ step_ind))
         in fdiv
              (fsub
                 (fadd
                    (eval_step transform objective_func data x_input
                       px (fmul (Fin 2) (fmul step_x (parameter_scalings_inv ! px))) 0 (Fin 0))
                    (eval_step transform objective_func data x_input
                       px (fmul (Fin (- 2)) (fmul step_x (parameter_scalings_inv ! px))) 0 (Fin 0)))
                 (fmul (Fin 2) f_x_input))
              (fmul (fmul (Fin 4) step_x) step_x))
      else
        (let step_x = fdiv (initial_step ! px) (Fin (step_ratio ^ step_ind));
             step_y = fdiv (initial_step ! py) (Fin (step_ratio ^ step_ind))
         in fdiv
              (fadd
                 (fsub
                    (fsub
                       (eval_step transform objective_func data x_input
                          px (fmul step_x (parameter_scalings_inv ! px))
                          py (fmul step_y (parameter_scalings_inv ! py)))
                       (eval_step transform objective_func data x_input
                          px (fmul step_x (parameter_scalings_inv ! px))
                          py (fmul (fneg step_y) (parameter_scalings_inv ! py))))
                    (eval_step transform objective_func data x_input
                       px (fmul (fneg step_x) (parameter_scalings_inv ! px))
                       py (fmul step_y (parameter_scalings_inv ! py))))
                 (eval_step transform objective_func data x_input
                    px (fmul (fneg step_x) (parameter_scalings_inv ! px))
                    py (fmul (fneg step_y) (parameter_scalings_inv ! py))))
              (fmul (fmul (Fin 4) step_x) step_y)))"

text \<open>\<open>_compute_steps\<close>: the values of all steps of one Hessian element.\<close>

definition compute_steps ::
  "(nat \<Rightarrow> fl list \<Rightarrow> fl list) \<Rightarrow> objective \<Rightarrow> real \<Rightarrow> nat \<Rightarrow> nat \<Rightarrow> fl list \<Rightarrow> fl \<Rightarrow> nat \<Rightarrow> nat
     \<Rightarrow> fl list \<Rightarrow> fl list \<Rightarrow> fl list" where
  "compute_steps transform objective_func step_ratio nmr_steps data x_input f_x_input px py
       parameter_scalings_inv initial_step =
     map (compute_step_value transform objective_func step_ratio data x_input f_x_input px py
            parameter_scalings_inv initial_step)
       [0..<nmr_steps]"

text \<open>
  The kernel \<open>compute\<close> of \<open>_derivation_kernel\<close> for one problem instance: one row of step
  values per coordinate pair, in the order of \<open>coords\<close>.
\<close>

definition derivation_kernel ::
  "(nat \<Rightarrow> fl list \<Rightarrow> fl list) \<Rightarrow> objective \<Rightarrow> nat \<Rightarrow> nat \<Rightarrow> real \<Rightarrow> nat \<Rightarrow> fl list
     \<Rightarrow> fl list \<Rightarrow> fl list \<Rightarrow> fl list list" where
  "derivation_kernel transform objective_func nmr_params nmr_steps step_ratio data parameters
       parameter_scalings_inv initial_step =
     (let f_x_input = objective_func data parameters
      in map (\<lambda>(px, py).
                compute_steps transform objective_func step_ratio nmr_steps data parameters
                  f_x_input px py parameter_scalings_inv initial_step)
           (coords nmr_params))"

text \<open>
  \<open>float(step_ratio) ** -step_offset\<close>: a Python float to an integer power; zero to a
  negative power raises.
\<close>

definition float_pow :: "real \<Rightarrow> int \<Rightarrow> real option" where
  "float_pow x k =
     (if 0 \<le> k then Some (x ^ nat k)
      else if x = 0 then None
      else Some (1 / x ^ nat (- k)))"

text \<open>
  \<open>_compute_derivatives\<close>: the initial steps, shrunk by the step offset when one is given
  and not zero, and the kernel run on every problem.  The result has one value per problem,
  Hessian element and step.
\<close>

definition compute_derivatives ::
  "model \<Rightarrow> objective \<Rightarrow> fl list list \<Rightarrow> real \<Rightarrow> int option \<Rightarrow> nat \<Rightarrow> bound list \<Rightarrow> bound list
     \<Rightarrow> fl list list list option" where
  "compute_derivatives m objective_func parameters step_ratio step_offset nmr_steps
       lower_bounds upper_bounds =
     do {
       parameter_scalings \<leftarrow> Some (numdiff_get_scaling_factors m);
       nmr_params \<leftarrow> Some (shape1 parameters);
       initial_step \<leftarrow> get_initial_step_size m parameters lower_bounds upper_bounds;
       initial_step \<leftarrow>
         (case step_offset of
            None \<Rightarrow> Some initial_step
          | Some off \<Rightarrow>
              if off = 0 then Some initial_step
              else do {
                f \<leftarrow> float_pow step_ratio (- off);
                Some (map (map (\<lambda>s. fmul s (Fin f))) initial_step)
              });
       Some (map (\<lambda>problem_id.
                    derivation_kernel (numdiff_parameter_transformation m) objective_func
                      nmr_params nmr_steps step_ratio problem_id (parameters ! problem_id)
                      (map (\<lambda>s. fdiv (Fin 1) s) parameter_scalings)
                      (initial_step ! problem_id))
              [0..<length parameters])
     }"


section \<open>Reference formulas for the initial step size\<close>





section \<open>Richardson extrapolation\<close>

text \<open>
  What the runtime supplies: the constants \<open>MOT_EPSILON\<close> and \<open>MOT_MIN\<close> of the compute
  precision, the square root of NumPy on finite values that are not negative, and the
  pseudo-inverse \<open>scipy.linalg.pinv\<close>.
\<close>

record runtime =
  mot_epsilon :: real
  mot_min :: real
  np_sqrt :: "real \<Rightarrow> real"
  linalg_pinv :: "fl list list \<Rightarrow> fl list list option"

text \<open>
  \<open>max\<close> of OpenCL C on floating-point values: \<open>y\<close> if \<open>x < y\<close>, otherwise \<open>x\<close>.
\<close>

definition cl_max :: "fl \<Rightarrow> fl \<Rightarrow> fl" where
  "cl_max x y = (if flt x y then y else x)"

fun fsqrt :: "runtime \<Rightarrow> fl \<Rightarrow> fl" where
  "fsqrt rt NaN = NaN"
| "fsqrt rt PInf = PInf"
| "fsqrt rt NInf = NaN"
| "fsqrt rt (Fin a) = (if a < 0 then NaN else Fin (np_sqrt rt a))"

text \<open>
  \<open>r_matrix\<close> of \<open>_get_richardson_coefficients\<close>: a matrix of ones whose columns after the
  first hold \<open>(1 / step_ratio) ** (i * (2 * j + 2))\<close>.  The division raises for a step ratio
  of zero.
\<close>

definition r_matrix :: "real \<Rightarrow> nat \<Rightarrow> fl list list option" where
  "r_matrix step_ratio num_terms =
     (if step_ratio = 0 then None
      else Some (map (\<lambda>i. Fin 1 # map (\<lambda>j. Fin ((1 / step_ratio) ^ (i * (2 * j + 2)))) [0..<num_terms])
                   [0..<num_terms + 1]))"

text \<open>
  \<open>_get_richardson_coefficients\<close>: the first row of the pseudo-inverse of the matrix.
\<close>

definition get_richardson_coefficients :: "runtime \<Rightarrow> real \<Rightarrow> nat \<Rightarrow> fl list option" where
  "get_richardson_coefficients rt step_ratio nmr_extrapolations =
     (if nmr_extrapolations = 0 then Some [Fin 1]
      else do {
        r \<leftarrow> r_matrix step_ratio nmr_extrapolations;
        p \<leftarrow> linalg_pinv rt r;
        nth_opt p 0
      })"

text \<open>
  \<open>_apply_richardson_convolution\<close> for one row of step values: the coefficients slide over
  the row, and an index beyond the last step is reflected.
\<close>

definition reflect :: "nat \<Rightarrow> nat \<Rightarrow> nat" where
  "reflect nmr_steps kernel_step_ind =
     (if kernel_step_ind \<ge> nmr_steps
      then kernel_step_ind - (2 * (kernel_step_ind - nmr_steps) + 1)
      else kernel_step_ind)"

definition apply_richardson_convolution :: "nat \<Rightarrow> nat \<Rightarrow> fl list \<Rightarrow> fl list \<Rightarrow> fl list" where
  "apply_richardson_convolution nmr_steps nmr_convolutions convolution_kernel derivatives =
     map (\<lambda>step_ind.
            foldl (\<lambda>acc kernel_ind.
                     fadd acc (fmul (derivatives ! reflect nmr_steps (step_ind + kernel_ind))
                                    (convolution_kernel ! kernel_ind)))
              0 [0..<length convolution_kernel])
       [0..<nmr_convolutions]"

text \<open>
  \<open>_compute_richardson_errors\<close> for one row.  The offset \<open>nmr_steps - nmr_convolutions + 1\<close>
  into the step values is computed with Python integers when the kernel is generated.
\<close>

definition richardson_fact :: "runtime \<Rightarrow> fl list \<Rightarrow> fl" where
  "richardson_fact rt richardson_coefficients =
     cl_max
       (fmul (Fin (127062047361747 / 10000000000000))
          (fsqrt rt (foldl fadd 0 (map (\<lambda>c. fmul c c) richardson_coefficients))))
       (Fin (mot_epsilon rt * 10))"

definition compute_richardson_errors ::
  "runtime \<Rightarrow> nat \<Rightarrow> nat \<Rightarrow> fl list \<Rightarrow> fl list \<Rightarrow> fl list \<Rightarrow> fl list" where
  "compute_richardson_errors rt nmr_steps nmr_convolutions richardson_coefficients derivatives
       richardson_extrapolations =
     (let fact = richardson_fact rt richardson_coefficients
      in map (\<lambda>conv_ind.
                let tolerance =
                      fmul (fmul (cl_max (fabs (richardson_extrapolations ! (conv_ind + 1)))
                                         (fabs (richardson_extrapolations ! conv_ind)))
                                 (Fin (mot_epsilon rt)))
                           fact;
                    error = fmul (fabs (fsub (richardson_extrapolations ! conv_ind)
                                             (richardson_extrapolations ! (conv_ind + 1))))
                                 fact
                in if fle error tolerance then fadd error (fmul tolerance (Fin 10))
                   else fadd error
                          (fmul (fabs (fsub (richardson_extrapolations ! conv_ind)
                                            (derivatives ! nat (int nmr_steps - int nmr_convolutions + 1 + int conv_ind))))
                                fact))
           [0..<nmr_convolutions - 1])"

text \<open>
  The last dimension of a three-dimensional array (zero for an array without entries).
\<close>

definition shape2 :: "'a list list list \<Rightarrow> nat" where
  "shape2 a = (case a of [] \<Rightarrow> 0 | r # _ \<Rightarrow> shape1 r)"

text \<open>
  \<open>_richardson_extrapolation\<close>: the kernel on every row of every problem; the candidates
  are the first \<open>final_nmr_convolutions\<close> convolutions.  The sizes are Python integers: a
  negative size of an array raises, and a slice with a negative end counts from the end.
  Without any step the coefficients are asked for \<open>-1\<close> extrapolations, the matrix is
  empty and taking the first row of its pseudo-inverse raises.
\<close>

definition py_slice_to :: "'a list \<Rightarrow> int \<Rightarrow> 'a list" where
  "py_slice_to xs e = (if e < 0 then take (nat (int (length xs) + e)) xs else take (nat e) xs)"

definition richardson_extrapolation ::
  "runtime \<Rightarrow> fl list list list \<Rightarrow> real
     \<Rightarrow> (fl list list list \<times> fl list list list) option" where
  "richardson_extrapolation rt derivatives step_ratio =
     do {
       nmr_steps \<leftarrow> Some (shape2 derivatives);
       richardson_coefficients \<leftarrow>
         (if min nmr_steps 3 = 0 then None
          else get_richardson_coefficients rt step_ratio (min nmr_steps 3 - 1));
       nmr_convolutions_needed \<leftarrow> Some (int nmr_steps - (int (length richardson_coefficients) - 2));
       final_nmr_convolutions \<leftarrow> Some (nmr_convolutions_needed - 1);
       if nmr_convolutions_needed < 0 \<or> final_nmr_convolutions < 0 then None
       else
         Some (map (map (\<lambda>row.
                      py_slice_to
                        (apply_richardson_convolution nmr_steps (nat nmr_convolutions_needed)
                           richardson_coefficients row)
                        final_nmr_convolutions))
                 derivatives,
               map (map (\<lambda>row.
                      compute_richardson_errors rt nmr_steps (nat nmr_convolutions_needed)
                        richardson_coefficients row
                        (apply_richardson_convolution nmr_steps (nat nmr_convolutions_needed)
                           richardson_coefficients row)))
                 derivatives)
     }"

section \<open>Wynn's epsilon algorithm\<close>

text \<open>The body of the loop of the Wynn kernel: the extrapolation and its error at index \<open>i\<close>.\<close>

definition wynn_step :: "runtime \<Rightarrow> fl list \<Rightarrow> nat \<Rightarrow> fl \<times> fl" where
  "wynn_step rt derivatives i =
     (let v0 = derivatives ! i;
          v1 = derivatives ! (i + 1);
          v2 = derivatives ! (i + 2);
          delta0 = fsub v1 v0;
          delta1 = fsub v2 v1;
          err0 = fabs delta0;
          err1 = fabs delta1;
          tol0 = fmul (cl_max (fabs v0) (fabs v1)) (Fin (mot_epsilon rt));
          tol1 = fmul (cl_max (fabs v1) (fabs v2)) (Fin (mot_epsilon rt));
          delta0 = (if flt err0 (Fin (mot_min rt)) then Fin (mot_min rt) else delta0);
          delta1 = (if flt err1 (Fin (mot_min rt)) then Fin (mot_min rt) else delta1);
          ss = fadd (fsub (fdiv (Fin 1) delta1) (fdiv (Fin 1) delta0)) (Fin (mot_min rt));
          converged = ((fle err0 tol0 \<and> fle err1 tol1) \<or> fle (fabs (fmul ss v1)) (Fin (1 / 1000)));
          result = (if converged then v2 else fadd v1 (fdiv (Fin 1) ss))
      in (result,
          fadd (fadd err0 err1)
            (if converged then fmul tol1 (Fin 10) else fabs (fsub result v2))))"

text \<open>
  \<open>_wynn_extrapolate\<close>: \<open>nmr_steps - 2\<close> extrapolations and errors per row; a negative
  size of the output arrays raises.
\<close>

definition wynn_extrapolate ::
  "runtime \<Rightarrow> fl list list list \<Rightarrow> (fl list list list \<times> fl list list list) option" where
  "wynn_extrapolate rt derivatives =
     (let nmr_steps = shape2 derivatives;
          nmr_extrapolations = int nmr_steps - 2
      in if nmr_extrapolations < 0 then None
         else Some (map (map (\<lambda>row. map (\<lambda>i. fst (wynn_step rt row i)) [0..<nat nmr_extrapolations]))
                      derivatives,
                    map (map (\<lambda>row. map (\<lambda>i. snd (wynn_step rt row i)) [0..<nat nmr_extrapolations]))
                      derivatives))"

section \<open>Selection of the best estimate\<close>

text \<open>
  \<open>np.nanpercentile\<close> with linear interpolation: the values that are not NaN are sorted,
  the percentile \<open>q\<close> lies at position \<open>q / 100 * (n - 1)\<close> and is interpolated between
  its two neighbours (on finite values every variant of the interpolation formula gives the
  same number).  A slice without such values gives NaN.
\<close>

fun fl_key :: "fl \<Rightarrow> int \<times> real" where
  "fl_key NInf = (- 1, 0)"
| "fl_key (Fin a) = (0, a)"
| "fl_key PInf = (1, 0)"
| "fl_key NaN = (2, 0)"

definition key_le :: "int \<times> real \<Rightarrow> int \<times> real \<Rightarrow> bool" where
  "key_le a b = (fst a < fst b \<or> (fst a = fst b \<and> snd a \<le> snd b))"

fun insert_sorted :: "fl \<Rightarrow> fl list \<Rightarrow> fl list" where
  "insert_sorted x [] = [x]"
| "insert_sorted x (y # ys) =
     (if key_le (fl_key x) (fl_key y) then x # y # ys else y # insert_sorted x ys)"

definition sort_fl :: "fl list \<Rightarrow> fl list" where
  "sort_fl xs = foldr insert_sorted xs []"

definition lerp :: "fl \<Rightarrow> fl \<Rightarrow> real \<Rightarrow> fl" where
  "lerp a b t =
     (let diff_b_a = fsub b a
      in if t \<ge> 1 / 2 then fsub b (fmul diff_b_a (Fin (1 - t)))
         else fadd a (fmul diff_b_a (Fin t)))"

definition nanpercentile :: "fl list \<Rightarrow> real \<Rightarrow> fl" where
  "nanpercentile xs q =
     (let vs = sort_fl (filter (\<lambda>x. \<not> isnan x) xs);
          n = length vs
      in if n = 0 then NaN
         else
           (let virtual_index = q / 100 * real (n - 1);
                previous_index = nat \<lfloor>virtual_index\<rfloor>;
                next_index = min (previous_index + 1) (n - 1);
                gamma = virtual_index - real previous_index
            in lerp (vs ! previous_index) (vs ! next_index) gamma))"

text \<open>
  \<open>_get_median_outliers_errors\<close> for the candidates of one entry.  The sum of Boolean
  arrays is their disjunction, the product their conjunction; the Boolean array times the
  distance to the median is the distance for an outlier and zero times the distance
  otherwise.
\<close>

definition get_median_outliers_errors :: "fl list \<Rightarrow> fl list" where
  "get_median_outliers_errors der =
     (let trim_fact = Fin 10;
          p25 = nanpercentile der 25;
          median = nanpercentile der 50;
          p75 = nanpercentile der 75;
          iqr = fabs (fsub p75 p25);
          a_median = fabs median
      in map (\<lambda>d.
                let outlier =
                      (((flt (fabs d) (fdiv a_median trim_fact) \<or> flt (fmul a_median trim_fact) (fabs d))
                          \<and> flt (Fin (1 / 100000000)) a_median)
                       \<or> (flt d (fsub p25 (fmul (Fin (3 / 2)) iqr))
                           \<or> flt (fadd p75 (fmul (Fin (3 / 2)) iqr)) d))
                in fmul (if outlier then Fin 1 else Fin 0) (fabs (fsub d median)))
           der)"

text \<open>
  \<open>np.nanargmin\<close> along the last axis: NaN counts as infinity and the first position of
  the minimum is returned; a slice of NaN only raises.
\<close>

definition nan_to_inf :: "fl \<Rightarrow> fl" where
  "nan_to_inf x = (if isnan x then PInf else x)"

fun argmin_from :: "fl list \<Rightarrow> nat \<Rightarrow> nat \<Rightarrow> fl \<Rightarrow> nat" where
  "argmin_from [] i best_i best = best_i"
| "argmin_from (x # xs) i best_i best =
     (if flt x best then argmin_from xs (i + 1) i x else argmin_from xs (i + 1) best_i best)"

definition argmin :: "fl list \<Rightarrow> nat" where
  "argmin xs = (case xs of [] \<Rightarrow> 0 | x # rest \<Rightarrow> argmin_from rest 1 0 x)"

definition nanargmin :: "fl list \<Rightarrow> nat option" where
  "nanargmin xs =
     (if list_all isnan xs then None else Some (argmin (map nan_to_inf xs)))"

text \<open>
  \<open>_median_outlier_extrapolation\<close>.  The function writes into the arrays of its caller
  before it selects: the result is the state of \<open>derivatives\<close> and \<open>errors\<close> after the call
  together with the returned pair, or \<open>None\<close> in its place when \<open>np.nanargmin\<close> raises (the
  writes have happened by then).  The two arrays have the same shape, as they have at the
  only call of the function; the properties below are stated for such arrays.
\<close>

definition all_nan_entry :: "fl list \<Rightarrow> bool" where
  "all_nan_entry errs = (length (filter isnan errs) = length errs)"

definition median_outlier_extrapolation ::
  "fl list list list \<Rightarrow> fl list list list
     \<Rightarrow> (fl list list list \<times> fl list list list) \<times> (fl list list \<times> fl list list) option" where
  "median_outlier_extrapolation derivatives errors =
     (let all_nan = map (map all_nan_entry) errors;
          errors = map (\<lambda>(es, an). map (\<lambda>(e, a). if a then e[0 := 0] else e) (zip es an))
                     (zip errors all_nan);
          derivatives = map (\<lambda>(ds, an). map (\<lambda>(d, a). if a then d[0 := 0] else d) (zip ds an))
                          (zip derivatives all_nan);
          errors = map (\<lambda>(es, ds). map (\<lambda>(e, d). map (\<lambda>(x, y). fadd x y)
                                                    (zip e (get_median_outliers_errors d)))
                                      (zip es ds))
                     (zip errors derivatives);
          minpos = those (map (\<lambda>es. those (map nanargmin es)) errors)
      in ((derivatives, errors),
          case minpos of
            None \<Rightarrow> None
          | Some minpos \<Rightarrow>
              (let derivatives_final =
                     map (\<lambda>(ds, ms). map (\<lambda>(d, mp). d ! mp) (zip ds ms)) (zip derivatives minpos);
                   errors_final =
                     map (\<lambda>(es, ms). map (\<lambda>(e, mp). e ! mp) (zip es ms)) (zip errors minpos);
                   derivatives_final =
                     map (\<lambda>(ds, an). map (\<lambda>(d, a). if a then NaN else d) (zip ds an))
                       (zip derivatives_final all_nan);
                   errors_final =
                     map (\<lambda>(es, an). map (\<lambda>(e, a). if a then NaN else e) (zip es an))
                       (zip errors_final all_nan)
               in Some (derivatives_final, errors_final))))"

section \<open>The Hessian\<close>

text \<open>
  The parameters are a vector (one problem) or a matrix with one row per problem.
\<close>

datatype ndarray = Arr1 "fl list" | Arr2 "fl list list"

text \<open>\<open>derivatives[..., 0]\<close>: the first candidate of every entry; it raises without candidates.\<close>

definition first_candidate :: "fl list list list \<Rightarrow> fl list list option" where
  "first_candidate derivatives = those (map (\<lambda>ds. those (map (\<lambda>d. nth_opt d 0) ds)) derivatives)"

text \<open>
  \<open>numerical_hessian\<close>; \<open>None\<close> is a call that raises.
\<close>

definition numerical_hessian ::
  "runtime \<Rightarrow> model \<Rightarrow> objective \<Rightarrow> ndarray
     \<Rightarrow> bound list \<Rightarrow> bound list \<Rightarrow> real \<Rightarrow> nat \<Rightarrow> int option \<Rightarrow> fl list list list option" where
  "numerical_hessian rt m objective_func parameters lower_bounds upper_bounds
       step_ratio nmr_steps step_offset =
     (let parameters = (case parameters of Arr1 xs \<Rightarrow> [xs] | Arr2 rows \<Rightarrow> rows);
          nmr_params = shape1 parameters;
          parameter_scalings = numdiff_get_scaling_factors m
      in do {
           derivatives \<leftarrow> compute_derivatives m objective_func parameters step_ratio step_offset
                            nmr_steps lower_bounds upper_bounds;
           if nmr_steps = 1 then
             first_candidate derivatives \<bind> finalize_derivatives parameter_scalings nmr_params
           else
             do {
               (derivatives, errors) \<leftarrow> richardson_extrapolation rt derivatives step_ratio;
               if nmr_steps \<le> 3 then
                 first_candidate derivatives \<bind> finalize_derivatives parameter_scalings nmr_params
               else
                 do {
                   (derivatives, errors) \<leftarrow>
                     (if shape2 derivatives > 2 then wynn_extrapolate rt derivatives
                      else Some (derivatives, errors));
                   if shape2 derivatives = 1 then
                     first_candidate derivatives \<bind> finalize_derivatives parameter_scalings nmr_params
                   else
                     do {
                       (derivatives, errors) \<leftarrow> snd (median_outlier_extrapolation derivatives errors);
                       finalize_derivatives parameter_scalings nmr_params derivatives
                     }
                 }
             }
         })"

section \<open>Reference notions: symmetry\<close>

text \<open>
  A square matrix of side \<open>p\<close> that equals its transpose, and symmetry of a matrix of
  any side.
\<close>

definition sym_mat :: "nat \<Rightarrow> 'a list list \<Rightarrow> bool" where
  "sym_mat p M \<longleftrightarrow> length M = p \<and> (\<forall>a<p. length (M ! a) = p) \<and> (\<forall>a<p. \<forall>b<p. M ! a ! b = M ! b ! a)"

definition symmetric :: "'a list list \<Rightarrow> bool" where
  "symmetric H \<longleftrightarrow> (\<forall>a<length H. \<forall>b<length H. H ! a ! b = H ! b ! a)"

section \<open>Reference notions: packing of the lower-triangular entries\<close>

text \<open>
  The linear index of an unordered pair of parameters is its position in \<open>coords\<close>;
  unpacking reads \<open>coords\<close> at a linear index.  The loops of
  \<open>_results_vector_to_matrix\<close> are compared with the sequence of writes they perform: the
  \<open>k\<close>-th pair of a list receives entry \<open>k\<close> of the vector, at both positions.
\<close>

fun index_of :: "'a list \<Rightarrow> 'a \<Rightarrow> nat" where
  "index_of [] x = 0"
| "index_of (y # ys) x = (if x = y then 0 else Suc (index_of ys x))"

definition pack :: "nat \<Rightarrow> nat \<Rightarrow> nat \<Rightarrow> nat" where
  "pack nmr_params px py = index_of (coords nmr_params) (min px py, max px py)"

definition unpack :: "nat \<Rightarrow> nat \<Rightarrow> nat \<times> nat" where
  "unpack nmr_params k = coords nmr_params ! k"

definition write_pair :: "'a list \<Rightarrow> 'a list list \<Rightarrow> nat \<times> nat \<Rightarrow> nat \<Rightarrow> 'a list list" where
  "write_pair vec M c k = mat_set (mat_set M (fst c) (snd c) (vec ! k)) (snd c) (fst c) (vec ! k)"

fun apply_writes :: "'a list \<Rightarrow> 'a list list \<Rightarrow> (nat \<times> nat) list \<Rightarrow> nat \<Rightarrow> 'a list list" where
  "apply_writes vec M [] k = M"
| "apply_writes vec M (c # cs) k = apply_writes vec (write_pair vec M c k) cs (Suc k)"

definition square :: "nat \<Rightarrow> 'a list list \<Rightarrow> bool" where
  "square p M \<longleftrightarrow> length M = p \<and> (\<forall>a<p. length (M ! a) = p)"

section \<open>Example inputs\<close>

text \<open>
  A model with two parameters: the first bounded from above only, the second unbounded.
  The objective is \<open>x\<^sub>0\<^sup>2 + x\<^sub>1\<^sup>2\<close>.  The example runtime has the constants of double precision,
  a square root by four Newton steps, and the pseudo-inverses of the two Richardson matrices
  for a step ratio of two.
\<close>

definition ex_model :: model where
  "ex_model = \<lparr>numdiff_get_max_step = [Fin (1/10), Fin (1/10)],
     numdiff_get_scaling_factors = [Fin 1, Fin 2],
     numdiff_use_bounds = [True, False],
     numdiff_use_upper_bounds = [True, False],
     numdiff_use_lower_bounds = [False, False],
     numdiff_parameter_transformation = (\<lambda>data x. x)\<rparr>"

definition ex_lower :: "bound list" where
  "ex_lower = [Scalar NInf, Scalar NInf]"

definition ex_upper :: "bound list" where
  "ex_upper = [Scalar (Fin (21 / 20)), Scalar PInf]"

definition ex_objective :: objective where
  "ex_objective data x = fadd (fmul (x ! 0) (x ! 0)) (fmul (x ! 1) (x ! 1))"

fun newton_sqrt :: "nat \<Rightarrow> real \<Rightarrow> real \<Rightarrow> real" where
  "newton_sqrt 0 x y = y"
| "newton_sqrt (Suc n) x y = newton_sqrt n x ((y + x / y) / 2)"

definition ex_runtime :: runtime where
  "ex_runtime =
     \<lparr>mot_epsilon = 1 / 2 ^ 52,
      mot_min = 1 / 2 ^ 1022,
      np_sqrt = (\<lambda>x. if x = 0 then 0 else newton_sqrt 4 x 1),
      linalg_pinv = (\<lambda>r.
        if length r = 2
        then Some [[Fin (- 1 / 3), Fin (4 / 3)], [Fin (4 / 3), Fin (- 4 / 3)]]
        else Some [[Fin (1 / 45), Fin (- 4 / 9), Fin (64 / 45)],
                   [Fin (- 2 / 3), Fin 8, Fin (- 64 / 3)],
                   [Fin (8 / 3), Fin (- 32 / 3), Fin (64 / 3)]])\<rparr>"

section \<open>Reference notions: shapes\<close>

text \<open>An array of \<open>d\<close> problems, \<open>n\<close> entries per problem and \<open>s\<close> values per entry.\<close>

definition has_shape :: "'a list list list \<Rightarrow> nat \<Rightarrow> nat \<Rightarrow> nat \<Rightarrow> bool" where
  "has_shape a d n s \<longleftrightarrow>
     length a = d \<and> list_all (\<lambda>x. length x = n \<and> list_all (\<lambda>y. length y = s) x) a"

section \<open>Reference notions: the first Richardson candidate\<close>

text \<open>
  The sum of the step values of an entry weighted by the Richardson coefficients, and a
  second example objective, \<open>x\<^sub>0\<^sup>4 + x\<^sub>0 x\<^sub>1 + x\<^sub>1\<^sup>2\<close>, whose central differences depend
  on the step.
\<close>

definition weighted_sum :: "fl list \<Rightarrow> fl list \<Rightarrow> fl" where
  "weighted_sum c row = foldl (\<lambda>acc k. fadd acc (fmul (row ! k) (c ! k))) 0 [0..<length c]"

definition ex_quartic :: objective where
  "ex_quartic data x =
     fadd (fadd (fmul (fmul (x ! 0) (x ! 0)) (fmul (x ! 0) (x ! 0))) (fmul (x ! 0) (x ! 1)))
          (fmul (x ! 1) (x ! 1))"

section \<open>Reference notions: the candidates before the selection\<close>

text \<open>
  The candidates and errors that \<open>numerical_hessian\<close> holds when it reaches the selection,
  for more than three steps: the Richardson extrapolation, followed by the Wynn
  extrapolation when more than two candidates remain.  The count of candidates is the last
  dimension of the array.  Two example arrays hold one entry with seven and with four step
  values.
\<close>

definition extrapolate_candidates ::
  "runtime \<Rightarrow> fl list list list \<Rightarrow> real \<Rightarrow> (fl list list list \<times> fl list list list) option" where
  "extrapolate_candidates rt derivatives step_ratio =
     do {
       (derivatives, errors) \<leftarrow> richardson_extrapolation rt derivatives step_ratio;
       if shape2 derivatives > 2 then wynn_extrapolate rt derivatives
       else Some (derivatives, errors)
     }"

definition candidate_count :: "(fl list list list \<times> fl list list list) option \<Rightarrow> nat option" where
  "candidate_count res = map_option (\<lambda>(derivatives, errors). shape2 derivatives) res"

definition ex_steps7 :: "fl list list list" where
  "ex_steps7 = [[[Fin 1, Fin 2, Fin 4, Fin 8, Fin 16, Fin 32, Fin 64]]]"

definition ex_steps4 :: "fl list list list" where
  "ex_steps4 = [[[Fin 1, Fin 2, Fin 4, Fin 8]]]"

section \<open>The selection of the older routine\<close>





section \<open>The kernel of the older routine\<close>

text \<open>
  The kernel that \<open>NumericalHessian._get_wrapped_function\<close> of
  \<open>mapping/numerical_hessian.py\<close> generates.  Its constants and the functions it is
  generated from are collected in a record: the number of parameters and of steps, the
  step ratio, the maximum steps and the parameter scalings, the two Richardson rules, the
  bound check, the objective \<open>_calculate_function\<close> (whose reduction over the work items of
  a group is not modelled), the parameter preparation of the codec, and the content of the
  memory behind the array \<open>x_input\<close>, which \<open>_initial_point_within_bounds\<close> reads when
  there are more steps than parameters.  The first argument of the three functions stands
  for the kernel's data pointer.
\<close>

record hessian_kernel =
  k_nmr_params :: nat
  k_nmr_steps :: nat
  k_step_ratio :: real
  k_max_steps :: "fl list"
  k_parameter_scalings :: "fl list"
  k_kernel_2 :: "fl list"
  k_kernel_3 :: "fl list"
  k_bound_check :: "nat \<Rightarrow> fl \<Rightarrow> fl \<Rightarrow> nat \<Rightarrow> bool"
  k_calculate_function :: "nat \<Rightarrow> fl list \<Rightarrow> fl"
  k_prepare_parameters :: "nat \<Rightarrow> fl list \<Rightarrow> fl list"
  k_beyond :: "nat \<Rightarrow> fl"




text \<open>
  \<open>_generate_grid_points\<close>.  The state of the search for the first step of one parameter
  is the step tried, the step sizes and the flag \<open>first_step_found\<close>; the flag starts as
  \<open>true\<close> before the loop over the parameters.
\<close>

definition first_step_search ::
  "hessian_kernel \<Rightarrow> nat \<Rightarrow> fl list \<Rightarrow> nat \<Rightarrow> fl \<times> fl list \<times> bool \<Rightarrow> fl \<times> fl list \<times> bool" where
  "first_step_search k data x_input param_ind state =
     foldl (\<lambda>(first_step, step_sizes, first_step_found) i.
              if k_bound_check k data (x_input ! param_ind)
                   (fdiv first_step (k_parameter_scalings k ! param_ind)) param_ind
              then (first_step, step_sizes[param_ind := first_step], True)
              else (fdiv first_step (Fin 2), step_sizes, first_step_found))
       state [0..<10]"

fun generate_grid_points_loop ::
  "hessian_kernel \<Rightarrow> nat \<Rightarrow> fl list \<Rightarrow> nat list \<Rightarrow> fl list \<Rightarrow> bool \<Rightarrow> bool \<times> fl list" where
  "generate_grid_points_loop k data x_input [] step_sizes first_step_found = (True, step_sizes)"
| "generate_grid_points_loop k data x_input (param_ind # rest) step_sizes first_step_found =
     (case first_step_search k data x_input param_ind
             (k_max_steps k ! param_ind, step_sizes, first_step_found) of
        (first_step, step_sizes, first_step_found) \<Rightarrow>
          if \<not> first_step_found then (False, step_sizes)
          else
            generate_grid_points_loop k data x_input rest
              (foldl (\<lambda>s step_ind.
                        s[param_ind + step_ind * k_nmr_params k :=
                            fdiv first_step (Fin (k_step_ratio k ^ step_ind))])
                 step_sizes [1..<k_nmr_steps k])
              first_step_found)"

definition generate_grid_points :: "hessian_kernel \<Rightarrow> nat \<Rightarrow> fl list \<Rightarrow> fl list \<Rightarrow> bool \<times> fl list" where
  "generate_grid_points k data x_input step_sizes =
     generate_grid_points_loop k data x_input [0..<k_nmr_params k] step_sizes True"








section \<open>Reference notions: the selection entry by entry\<close>

text \<open>
  Two arrays with the same problems and entries; the candidates of an entry with its first
  candidate replaced by zero when the errors of the entry are all NaN; the errors of an
  entry after the replacement and the addition of the outlier penalties.  A position is the
  first minimum of a list when no element is smaller and every earlier element is larger.
  A list of candidates is finite or NaN when it holds no infinity.
\<close>

definition same_entries :: "'a list list list \<Rightarrow> 'b list list list \<Rightarrow> bool" where
  "same_entries D E \<longleftrightarrow> length D = length E \<and> (\<forall>i<length E. length (D ! i) = length (E ! i))"

definition with_sentinel :: "fl list \<Rightarrow> fl list \<Rightarrow> fl list" where
  "with_sentinel errs xs = (if all_nan_entry errs then xs[0 := 0] else xs)"

definition penalised_errors :: "fl list \<Rightarrow> fl list \<Rightarrow> fl list" where
  "penalised_errors ders errs =
     map (\<lambda>(x, y). fadd x y)
       (zip (with_sentinel errs errs) (get_median_outliers_errors (with_sentinel errs ders)))"

definition first_minimum :: "fl list \<Rightarrow> nat \<Rightarrow> bool" where
  "first_minimum ys k \<longleftrightarrow>
     k < length ys \<and> (\<forall>j<length ys. \<not> flt (ys ! j) (ys ! k)) \<and> (\<forall>j<k. flt (ys ! k) (ys ! j))"

fun is_finite :: "fl \<Rightarrow> bool" where
  "is_finite (Fin a) = True"
| "is_finite _ = False"

definition finite_or_nan :: "fl list \<Rightarrow> bool" where
  "finite_or_nan xs = list_all (\<lambda>x. is_finite x \<or> isnan x) xs"




section \<open>Properties of the initial step size\<close>




lemma set_column_length [simp]: "length col = length M \<Longrightarrow> length (set_column M ind col) = length M"
  by (simp add: set_column_def)










section \<open>Symmetry of the Hessian and the packing of its entries\<close>

lemma mat_set_length [simp]: "length (mat_set M i j v) = length M"
  by (simp add: mat_set_def)

lemma mat_set_row_length [simp]: "length (mat_set M i j v ! a) = length (M ! a)"
  by (cases "i < length M"; cases "a = i") (simp_all add: mat_set_def list_update_beyond)

lemma mat_set_nth:
  "a < length M \<Longrightarrow> b < length (M ! a) \<Longrightarrow>
   mat_set M i j v ! a ! b = (if a = i \<and> b = j then v else M ! a ! b)"
  by (cases "a = i"; cases "b = j") (simp_all add: mat_set_def)

lemma if_or: "(if P then v else if Q then v else w) = (if P \<or> Q then v else w)"
  by simp

lemma mat_set_twice_nth:
  assumes "a < length M" "b < length (M ! a)"
  shows "mat_set (mat_set M x y v) y x v ! a ! b =
         (if (a = y \<and> b = x) \<or> (a = x \<and> b = y) then v else M ! a ! b)"
proof -
  have "mat_set (mat_set M x y v) y x v ! a ! b =
        (if a = y \<and> b = x then v else mat_set M x y v ! a ! b)"
    by (rule mat_set_nth) (use assms in simp_all)
  also have "mat_set M x y v ! a ! b = (if a = x \<and> b = y then v else M ! a ! b)"
    by (rule mat_set_nth) (use assms in simp_all)
  finally show ?thesis
    by (simp only: if_or)
qed

lemma sym_mat_write:
  assumes "sym_mat p M" "x < p" "y < p"
  shows "sym_mat p (mat_set (mat_set M x y v) y x v)"
proof -
  let ?N = "mat_set (mat_set M x y v) y x v"
  have len: "length M = p" and rows: "\<And>a. a < p \<Longrightarrow> length (M ! a) = p"
    and sym: "\<And>a b. a < p \<Longrightarrow> b < p \<Longrightarrow> M ! a ! b = M ! b ! a"
    using assms(1) by (auto simp: sym_mat_def)
  have "?N ! a ! b = ?N ! b ! a" if ab: "a < p" "b < p" for a b
  proof -
    have c: "((a = y \<and> b = x) \<or> (a = x \<and> b = y)) = ((b = y \<and> a = x) \<or> (b = x \<and> a = y))"
      by blast
    have 1: "?N ! a ! b = (if (a = y \<and> b = x) \<or> (a = x \<and> b = y) then v else M ! a ! b)"
      by (rule mat_set_twice_nth) (use ab len rows in simp_all)
    have 2: "?N ! b ! a = (if (b = y \<and> a = x) \<or> (b = x \<and> a = y) then v else M ! b ! a)"
      by (rule mat_set_twice_nth) (use ab len rows in simp_all)
    show ?thesis
      unfolding 1 2 by (simp only: c sym[OF ab])
  qed
  then show ?thesis
    using len rows by (simp add: sym_mat_def)
qed

lemma sym_mat_write_diag:
  assumes "sym_mat p M" "x < p"
  shows "sym_mat p (mat_set M x x v)"
proof -
  let ?N = "mat_set M x x v"
  have len: "length M = p" and rows: "\<And>a. a < p \<Longrightarrow> length (M ! a) = p"
    and sym: "\<And>a b. a < p \<Longrightarrow> b < p \<Longrightarrow> M ! a ! b = M ! b ! a"
    using assms(1) by (auto simp: sym_mat_def)
  have "?N ! a ! b = ?N ! b ! a" if ab: "a < p" "b < p" for a b
  proof -
    have c: "(a = x \<and> b = x) = (b = x \<and> a = x)"
      by blast
    have 1: "?N ! a ! b = (if a = x \<and> b = x then v else M ! a ! b)"
      by (rule mat_set_nth) (use ab len rows in simp_all)
    have 2: "?N ! b ! a = (if b = x \<and> a = x then v else M ! b ! a)"
      by (rule mat_set_nth) (use ab len rows in simp_all)
    show ?thesis
      unfolding 1 2 by (simp only: c sym[OF ab])
  qed
  then show ?thesis
    using len rows by (simp add: sym_mat_def)
qed

lemma fill_upper_sym:
  assumes "fill_upper vec px pys M ltr = Some (M', ltr')" "sym_mat p M" "px < p" "\<forall>py\<in>set pys. py < p"
  shows "sym_mat p M'"
  using assms
proof (induction pys arbitrary: M ltr)
  case Nil
  then show ?case by simp
next
  case (Cons py pys)
  from Cons.prems(1) obtain v where v: "nth_opt vec ltr = Some v"
    and r: "fill_upper vec px pys (mat_set (mat_set M px py v) py px v) (ltr + 1) = Some (M', ltr')"
    by (auto split: bind_splits)
  show ?case
    by (rule Cons.IH[OF r]) (use Cons.prems in \<open>auto intro: sym_mat_write\<close>)
qed

lemma fill_rows_sym:
  assumes "fill_rows vec p pxs M ltr = Some (M', ltr')" "sym_mat p M" "\<forall>px\<in>set pxs. px < p"
  shows "sym_mat p M'"
  using assms
proof (induction pxs arbitrary: M ltr)
  case Nil
  then show ?case by simp
next
  case (Cons px pxs)
  from Cons.prems(1) obtain v M1 l1 where v: "nth_opt vec ltr = Some v"
    and u: "fill_upper vec px [px + 1..<p] (mat_set M px px v) (ltr + 1) = Some (M1, l1)"
    and r: "fill_rows vec p pxs M1 l1 = Some (M', ltr')"
    by (auto split: bind_splits)
  have "sym_mat p M1"
    by (rule fill_upper_sym[OF u]) (use Cons.prems in \<open>auto intro: sym_mat_write_diag\<close>)
  then show ?case
    using Cons.IH[OF r] Cons.prems by auto
qed

lemma vector_to_matrix_sym:
  assumes "vector_to_matrix vec p = Some M"
  shows "sym_mat p M"
proof -
  from assms obtain l where "fill_rows vec p [0..<p] (replicate p (replicate p 0)) 0 = Some (M, l)"
    by (auto simp: vector_to_matrix_def)
  then show ?thesis
    by (rule fill_rows_sym) (auto simp: sym_mat_def)
qed

lemma those_Some_nth:
  "those xs = Some ys \<Longrightarrow> length ys = length xs \<and> (\<forall>i<length xs. xs ! i = Some (ys ! i))"
proof (induction xs arbitrary: ys)
  case Nil
  then show ?case by simp
next
  case (Cons x xs)
  then show ?case
    by (auto split: option.splits simp: nth_Cons split: nat.splits)
qed

lemma fmul_commute: "fmul x y = fmul y x"
  by (cases x; cases y) (simp_all add: mult.commute)

lemma broadcast_mul_sym:
  assumes "broadcast_mul p M (outer s s) = Some H" "sym_mat p M"
  shows "\<forall>a<length H. \<forall>b<length H. H ! a ! b = H ! b ! a"
proof -
  have lo: "length (outer s s) = length s" by (simp add: outer_def)
  have no: "\<And>a b. a < length s \<Longrightarrow> b < length s \<Longrightarrow> outer s s ! a ! b = fmul (s ! a) (s ! b)"
    by (simp add: outer_def)
  have lr: "\<And>a. a < length s \<Longrightarrow> length (outer s s ! a) = length s" by (simp add: outer_def)
  consider (eq) "length s = p" | (one) "length s \<noteq> p" "length s = 1" | (pone) "length s \<noteq> p" "length s \<noteq> 1" "p = 1"
    using assms(1) by (auto simp: broadcast_mul_def lo split: if_splits)
  then show ?thesis
  proof cases
    case eq
    then have H: "H = mat_mul_elementwise M (outer s s)"
      using assms(1) by (simp add: broadcast_mul_def lo)
    show ?thesis using assms(2) eq unfolding H sym_mat_def mat_mul_elementwise_def
      by (auto simp: lo lr no fmul_commute)
  next
    case one
    then have H: "H = map (map (\<lambda>x. fmul x (outer s s ! 0 ! 0))) M"
      using assms(1) by (simp add: broadcast_mul_def lo)
    show ?thesis using assms(2) unfolding H sym_mat_def by auto
  next
    case pone
    then have H: "H = map (map (\<lambda>y. fmul (M ! 0 ! 0) y)) (outer s s)"
      using assms(1) by (simp add: broadcast_mul_def lo)
    show ?thesis unfolding H by (auto simp: lo lr no fmul_commute)
  qed
qed

lemma finalize_derivatives_sym:
  assumes "finalize_derivatives s p V = Some Hs"
  shows "\<forall>H\<in>set Hs. symmetric H"
proof -
  from assms obtain Ms where Ms: "results_vector_to_matrix V p = Some Ms"
    and Hs: "those (map (\<lambda>M. broadcast_mul p M (outer s s)) Ms) = Some Hs"
    by (auto simp: finalize_derivatives_def split: bind_splits)
  have symM: "sym_mat p (Ms ! i)" if "i < length Ms" for i
  proof -
    from those_Some_nth[OF Ms[unfolded results_vector_to_matrix_def]] that
    have "vector_to_matrix (V ! i) p = Some (Ms ! i)" by auto
    then show ?thesis by (rule vector_to_matrix_sym)
  qed
  show ?thesis
  proof
    fix H assume "H \<in> set Hs"
    then obtain i where i: "i < length Hs" "H = Hs ! i" by (auto simp: in_set_conv_nth)
    from those_Some_nth[OF Hs] i have "broadcast_mul p (Ms ! i) (outer s s) = Some H" "i < length Ms"
      by auto
    then show "symmetric H"
      using broadcast_mul_sym symM unfolding symmetric_def by blast
  qed
qed

lemma index_of_less: "x \<in> set xs \<Longrightarrow> index_of xs x < length xs \<and> xs ! index_of xs x = x"
  by (induction xs) auto

lemma index_of_nth: "distinct xs \<Longrightarrow> i < length xs \<Longrightarrow> index_of xs (xs ! i) = i"
proof (induction xs arbitrary: i)
  case Nil
  then show ?case by simp
next
  case (Cons y ys)
  then show ?case by (cases i) auto
qed

lemma set_coords: "set (coords p) = {(x, y). x \<le> y \<and> y < p}"
proof (rule set_eqI)
  fix c :: "nat \<times> nat"
  obtain a b where c: "c = (a, b)" by (cases c)
  have "(a, b) \<in> set (coords p) \<longleftrightarrow> (\<exists>x\<in>{0..<p}. (a, b) \<in> Pair x ` {x..<p})"
    by (simp add: coords_def)
  also have "\<dots> \<longleftrightarrow> a \<le> b \<and> b < p"
  proof
    assume "\<exists>x\<in>{0..<p}. (a, b) \<in> Pair x ` {x..<p}"
    then show "a \<le> b \<and> b < p" by auto
  next
    assume ab: "a \<le> b \<and> b < p"
    then have "a \<in> {0..<p}" "(a, b) \<in> Pair a ` {a..<p}" by auto
    then show "\<exists>x\<in>{0..<p}. (a, b) \<in> Pair x ` {x..<p}" by blast
  qed
  finally show "c \<in> set (coords p) \<longleftrightarrow> c \<in> {(x, y). x \<le> y \<and> y < p}"
    by (simp add: c)
qed

lemma coords_row_inj:
  assumes "x < p" "y < p" "map (Pair x) [x..<p] = map (Pair y) [y..<p]"
  shows "x = y"
proof -
  have hx: "hd (map (Pair x) [x..<p]) = (x, x)"
    using assms(1) by (simp add: hd_map)
  have hy: "hd (map (Pair y) [y..<p]) = (y, y)"
    using assms(2) by (simp add: hd_map)
  from assms(3) have "hd (map (Pair x) [x..<p]) = hd (map (Pair y) [y..<p])"
    by (rule arg_cong)
  then have "(x, x) = (y, y)"
    unfolding hx hy .
  then show ?thesis
    by (rule Pair_inject)
qed

lemma distinct_coords: "distinct (coords p)"
  unfolding coords_def
proof (rule distinct_concat)
  show "distinct (map (\<lambda>x. map (Pair x) [x..<p]) [0..<p])"
    by (auto simp: distinct_map inj_on_def dest: coords_row_inj)
  show "\<And>ys. ys \<in> set (map (\<lambda>x. map (Pair x) [x..<p]) [0..<p]) \<Longrightarrow> distinct ys"
    by (auto simp: distinct_map inj_on_def)
  show "\<And>ys zs. ys \<in> set (map (\<lambda>x. map (Pair x) [x..<p]) [0..<p]) \<Longrightarrow>
      zs \<in> set (map (\<lambda>x. map (Pair x) [x..<p]) [0..<p]) \<Longrightarrow> ys \<noteq> zs \<Longrightarrow> set ys \<inter> set zs = {}"
    by auto
qed

lemma apply_writes_append:
  "apply_writes vec M (as @ bs) k = apply_writes vec (apply_writes vec M as k) bs (k + length as)"
  by (induction as arbitrary: M k) auto

lemma mat_set_diag_twice: "mat_set (mat_set M x x v) x x v = mat_set M x x v"
  by (cases "x < length M") (simp_all add: mat_set_def list_update_beyond)

lemma fill_upper_writes:
  "ltr + length pys \<le> length vec \<Longrightarrow>
   fill_upper vec px pys M ltr = Some (apply_writes vec M (map (Pair px) pys) ltr, ltr + length pys)"
proof (induction pys arbitrary: M ltr)
  case Nil
  then show ?case by simp
next
  case (Cons py pys)
  then show ?case
    by (simp add: nth_opt_def write_pair_def)
qed

lemma fill_rows_writes:
  assumes "ltr + length (concat (map (\<lambda>x. map (Pair x) [x..<p]) pxs)) \<le> length vec"
    and "\<forall>px\<in>set pxs. px < p"
  shows "fill_rows vec p pxs M ltr =
     Some (apply_writes vec M (concat (map (\<lambda>x. map (Pair x) [x..<p]) pxs)) ltr,
           ltr + length (concat (map (\<lambda>x. map (Pair x) [x..<p]) pxs)))"
  using assms
proof (induction pxs arbitrary: M ltr)
  case Nil
  then show ?case by simp
next
  case (Cons px pxs)
  let ?rest = "concat (map (\<lambda>x. map (Pair x) [x..<p]) pxs)"
  have px: "px < p" using Cons.prems by simp
  then have row: "[px..<p] = px # [px + 1..<p]" using upt_conv_Cons[of px p] by simp
  have len: "ltr + (1 + (length [px + 1..<p] + length ?rest)) \<le> length vec"
    using Cons.prems(1) by (simp add: row)
  have v: "nth_opt vec ltr = Some (vec ! ltr)" using len by (simp add: nth_opt_def)
  have u: "fill_upper vec px [px + 1..<p] (mat_set M px px (vec ! ltr)) (ltr + 1) =
    Some (apply_writes vec (mat_set M px px (vec ! ltr)) (map (Pair px) [px + 1..<p]) (ltr + 1),
          ltr + 1 + length [px + 1..<p])"
    by (rule fill_upper_writes) (use len in simp)
  have ih: "fill_rows vec p pxs M' (ltr + 1 + length [px + 1..<p]) =
     Some (apply_writes vec M' ?rest (ltr + 1 + length [px + 1..<p]),
           ltr + 1 + length [px + 1..<p] + length ?rest)" for M'
    by (rule Cons.IH) (use len Cons.prems in simp_all)
  have d: "write_pair vec M (px, px) ltr = mat_set M px px (vec ! ltr)"
    by (simp add: write_pair_def mat_set_diag_twice)
  have cs: "concat (map (\<lambda>x. map (Pair x) [x..<p]) (px # pxs)) =
      (px, px) # map (Pair px) [px + 1..<p] @ ?rest"
    by (simp add: row)
  show ?case
    unfolding cs using v u ih
    by (simp add: apply_writes_append d add.assoc)
qed

lemma vector_to_matrix_writes:
  assumes "length (coords p) \<le> length vec"
  shows "vector_to_matrix vec p = Some (apply_writes vec (replicate p (replicate p 0)) (coords p) 0)"
proof -
  have "fill_rows vec p [0..<p] (replicate p (replicate p 0)) 0 =
     Some (apply_writes vec (replicate p (replicate p 0)) (concat (map (\<lambda>x. map (Pair x) [x..<p]) [0..<p])) 0,
           0 + length (concat (map (\<lambda>x. map (Pair x) [x..<p]) [0..<p])))"
    by (rule fill_rows_writes) (use assms in \<open>simp_all add: coords_def\<close>)
  then show ?thesis
    by (simp add: vector_to_matrix_def coords_def)
qed

lemma write_pair_length [simp]: "length (write_pair vec M c k) = length M"
  by (simp add: write_pair_def)

lemma write_pair_row_length [simp]: "length (write_pair vec M c k ! a) = length (M ! a)"
  by (simp add: write_pair_def)

lemma square_write_pair: "square p M \<Longrightarrow> square p (write_pair vec M c k)"
  by (simp add: square_def)

lemma square_apply_writes: "square p M \<Longrightarrow> square p (apply_writes vec M cs k)"
  by (induction cs arbitrary: M k) (simp_all add: square_write_pair)

lemma write_pair_nth:
  assumes "a < length M" "b < length (M ! a)"
  shows "write_pair vec M (x, y) k ! a ! b =
         (if (a = y \<and> b = x) \<or> (a = x \<and> b = y) then vec ! k else M ! a ! b)"
  unfolding write_pair_def fst_conv snd_conv
  by (rule mat_set_twice_nth) (rule assms)+

lemma apply_writes_untouched:
  assumes "square p M" "a < p" "b < p" "(a, b) \<notin> set cs" "(b, a) \<notin> set cs"
  shows "apply_writes vec M cs k ! a ! b = M ! a ! b"
  using assms
proof (induction cs arbitrary: M k)
  case Nil
  then show ?case by simp
next
  case (Cons c cs)
  obtain x y where c: "c = (x, y)" by (cases c)
  have sq: "square p (write_pair vec M c k)"
    using Cons.prems(1) by (rule square_write_pair)
  have "(a, b) \<noteq> (x, y)" "(b, a) \<noteq> (x, y)"
    using Cons.prems(4,5) unfolding c by auto
  then have no: "\<not> ((a = y \<and> b = x) \<or> (a = x \<and> b = y))"
    by blast
  have ab: "a < length M" "b < length (M ! a)"
    using Cons.prems(1,2,3) by (simp_all add: square_def)
  have w: "write_pair vec M c k ! a ! b = M ! a ! b"
    unfolding c write_pair_nth[OF ab] using no by (simp only: if_False)
  have "apply_writes vec (write_pair vec M c k) cs (Suc k) ! a ! b = write_pair vec M c k ! a ! b"
    by (rule Cons.IH[OF sq Cons.prems(2,3)]) (use Cons.prems(4,5) in auto)
  then show ?case
    unfolding apply_writes.simps w .
qed

lemma apply_writes_hit:
  assumes "square p M" "distinct cs" "\<forall>c\<in>set cs. fst c \<le> snd c"
    and "i < length cs" "cs ! i = (x, y)" "x < p" "y < p"
  shows "apply_writes vec M cs k ! x ! y = vec ! (k + i) \<and> apply_writes vec M cs k ! y ! x = vec ! (k + i)"
  using assms
proof (induction cs arbitrary: M k i)
  case Nil
  then show ?case by simp
next
  case (Cons c cs)
  have sq: "square p (write_pair vec M c k)"
    using Cons.prems(1) by (rule square_write_pair)
  show ?case
  proof (cases i)
    case 0
    then have c: "c = (x, y)" using Cons.prems(5) by simp
    have xy: "x \<le> y" using Cons.prems(3) unfolding c by simp
    have n1: "(x, y) \<notin> set cs" using Cons.prems(2) unfolding c by simp
    have n2: "(y, x) \<notin> set cs"
    proof
      assume in2: "(y, x) \<in> set cs"
      then have "y \<le> x" using Cons.prems(3) by fastforce
      with xy have "(y, x) = (x, y)" by simp
      with in2 n1 show False by metis
    qed
    have dx: "x < length M" "y < length (M ! x)" and dy: "y < length M" "x < length (M ! y)"
      using Cons.prems(1,6,7) by (simp_all add: square_def)
    have t1: "(x = y \<and> y = x) \<or> (x = x \<and> y = y)" by blast
    have t2: "(y = y \<and> x = x) \<or> (y = x \<and> x = y)" by blast
    have w1: "write_pair vec M c k ! x ! y = vec ! k"
      unfolding c write_pair_nth[OF dx] using t1 by (simp only: if_True)
    have w2: "write_pair vec M c k ! y ! x = vec ! k"
      unfolding c write_pair_nth[OF dy] using t2 by (simp only: if_True)
    have u1: "apply_writes vec (write_pair vec M c k) cs (Suc k) ! x ! y = write_pair vec M c k ! x ! y"
      by (rule apply_writes_untouched[OF sq Cons.prems(6,7) n1 n2])
    have u2: "apply_writes vec (write_pair vec M c k) cs (Suc k) ! y ! x = write_pair vec M c k ! y ! x"
      by (rule apply_writes_untouched[OF sq Cons.prems(7,6) n2 n1])
    show ?thesis
      unfolding apply_writes.simps u1 u2 w1 w2 0 by simp
  next
    case (Suc j)
    have "apply_writes vec (write_pair vec M c k) cs (Suc k) ! x ! y = vec ! (Suc k + j) \<and>
          apply_writes vec (write_pair vec M c k) cs (Suc k) ! y ! x = vec ! (Suc k + j)"
      by (rule Cons.IH[OF sq _ _ _ _ Cons.prems(6,7)]) (use Cons.prems Suc in auto)
    then show ?thesis
      unfolding apply_writes.simps Suc by simp
  qed
qed

lemma pack_props:
  assumes "a < p" "b < p"
  shows "pack p a b < length (coords p)" "unpack p (pack p a b) = (min a b, max a b)"
    "pack p a b = pack p b a"
proof -
  have "(min a b, max a b) \<in> set (coords p)"
    using assms by (simp add: set_coords)
  from index_of_less[OF this]
  show "pack p a b < length (coords p)" "unpack p (pack p a b) = (min a b, max a b)"
    by (simp_all add: pack_def unpack_def)
  show "pack p a b = pack p b a"
    by (simp add: pack_def min.commute max.commute)
qed

lemma pack_unpack:
  assumes "k < length (coords p)"
  shows "pack p (fst (unpack p k)) (snd (unpack p k)) = k"
proof -
  have "unpack p k \<in> set (coords p)" using assms by (simp add: unpack_def)
  then have "fst (unpack p k) \<le> snd (unpack p k)"
    unfolding set_coords by auto
  then have "(min (fst (unpack p k)) (snd (unpack p k)), max (fst (unpack p k)) (snd (unpack p k))) = unpack p k"
    by (simp add: min_def max_def)
  then show ?thesis
    unfolding pack_def using index_of_nth[OF distinct_coords assms] by (simp add: unpack_def)
qed

lemma vector_to_matrix_nth:
  assumes len: "length (coords p) \<le> length vec"
  shows "\<exists>M. vector_to_matrix vec p = Some M \<and> (\<forall>a<p. \<forall>b<p. M ! a ! b = vec ! pack p a b)"
proof -
  let ?Z = "replicate p (replicate p (0::'a))"
  let ?M = "apply_writes vec ?Z (coords p) 0"
  have sq: "square p ?Z" by (simp add: square_def)
  have le: "\<forall>c\<in>set (coords p). fst c \<le> snd c" unfolding set_coords by auto
  have "?M ! a ! b = vec ! pack p a b" if ab: "a < p" "b < p" for a b
  proof -
    let ?k = "pack p a b"
    have k: "?k < length (coords p)" "coords p ! ?k = (min a b, max a b)"
      using pack_props(1,2)[OF ab] by (simp_all add: unpack_def)
    have mm: "min a b < p" "max a b < p" using ab by simp_all
    from apply_writes_hit[OF sq distinct_coords le k mm, of vec 0]
    have h: "?M ! min a b ! max a b = vec ! ?k" "?M ! max a b ! min a b = vec ! ?k" by simp_all
    show ?thesis
    proof (cases "a \<le> b")
      case True
      then show ?thesis using h(1) by (simp add: min_def max_def)
    next
      case False
      then show ?thesis using h(2) by (simp add: min_def max_def)
    qed
  qed
  then show ?thesis
    using vector_to_matrix_writes[OF len] by blast
qed

lemma numerical_hessian_sym:
  assumes "numerical_hessian rt m f P lb ub r n off = Some Hs"
  shows "\<forall>H\<in>set Hs. symmetric H"
  using assms unfolding numerical_hessian_def Let_def
  by (auto split: bind_splits if_splits prod.splits dest: finalize_derivatives_sym)

lemma feq_refl: "\<not> isnan x \<Longrightarrow> feq x x"
  by (cases x) simp_all

text \<open>
  Claim C2.  Every matrix of the returned Hessian equals its transpose, entry for entry
  (the two entries hold the same value; where that value is not NaN they also compare
  equal as floating-point numbers).  The reason is the packing: the linear index of a pair
  does not depend on the order of the pair, packing and unpacking are inverse to each other
  on the pairs \<open>px \<le> py\<close> and their indices, and \<open>_results_vector_to_matrix\<close> fills
  both positions \<open>(a, b)\<close> and \<open>(b, a)\<close> from the entry at the linear index of the pair.
\<close>

theorem hessian_symmetric_by_packing:
  "(numerical_hessian rt m f P lb ub r n off = Some Hs \<longrightarrow>
      (\<forall>H\<in>set Hs. \<forall>i<length H. \<forall>j<length H.
          H ! i ! j = H ! j ! i \<and> (\<not> isnan (H ! i ! j) \<longrightarrow> feq (H ! i ! j) (H ! j ! i)))) \<and>
   (px < p \<and> py < p \<longrightarrow>
      pack p px py < length (coords p) \<and> unpack p (pack p px py) = (min px py, max px py) \<and>
      pack p px py = pack p py px) \<and>
   (k < length (coords p) \<longrightarrow> pack p (fst (unpack p k)) (snd (unpack p k)) = k) \<and>
   (length (coords p) \<le> length vec \<longrightarrow>
      (\<exists>M. vector_to_matrix vec p = Some M \<and>
           (\<forall>a<p. \<forall>b<p. M ! a ! b = vec ! pack p a b \<and> M ! b ! a = vec ! pack p a b)))"
proof (intro conjI impI)
  assume "numerical_hessian rt m f P lb ub r n off = Some Hs"
  from numerical_hessian_sym[OF this]
  have s: "\<And>H i j. H \<in> set Hs \<Longrightarrow> i < length H \<Longrightarrow> j < length H \<Longrightarrow> H ! i ! j = H ! j ! i"
    by (auto simp: symmetric_def)
  show "\<forall>H\<in>set Hs. \<forall>i<length H. \<forall>j<length H.
          H ! i ! j = H ! j ! i \<and> (\<not> isnan (H ! i ! j) \<longrightarrow> feq (H ! i ! j) (H ! j ! i))"
  proof (intro ballI allI impI conjI)
    fix H i j assume h: "H \<in> set Hs" "i < length H" "j < length H"
    show "H ! i ! j = H ! j ! i" by (rule s[OF h])
    assume "\<not> isnan (H ! i ! j)"
    then have "feq (H ! i ! j) (H ! i ! j)" by (rule feq_refl)
    then show "feq (H ! i ! j) (H ! j ! i)" by (simp only: s[OF h, symmetric])
  qed
next
  assume "px < p \<and> py < p"
  then show "pack p px py < length (coords p)" "unpack p (pack p px py) = (min px py, max px py)"
    "pack p px py = pack p py px"
    using pack_props[of px p py] by blast+
next
  assume "k < length (coords p)"
  then show "pack p (fst (unpack p k)) (snd (unpack p k)) = k" by (rule pack_unpack)
next
  assume len: "length (coords p) \<le> length vec"
  from vector_to_matrix_nth[OF len] obtain M where M: "vector_to_matrix vec p = Some M"
    and e: "\<And>a b. a < p \<Longrightarrow> b < p \<Longrightarrow> M ! a ! b = vec ! pack p a b"
    by blast
  have "M ! a ! b = vec ! pack p a b \<and> M ! b ! a = vec ! pack p a b" if "a < p" "b < p" for a b
    using e[OF that] e[OF that(2,1)] pack_props(3)[OF that] by simp
  with M show "\<exists>M. vector_to_matrix vec p = Some M \<and>
           (\<forall>a<p. \<forall>b<p. M ! a ! b = vec ! pack p a b \<and> M ! b ! a = vec ! pack p a b)"
    by blast
qed

theorem hessian_symmetric_by_packing_witness:
  "numerical_hessian ex_runtime ex_model ex_objective (Arr2 [[Fin 1, Fin 1]]) ex_lower ex_upper 2 1 None
     = Some [[[Fin 2, Fin 0], [Fin 0, Fin 2]]] \<and>
   [[Fin 2, Fin 0], [Fin 0, Fin 2]] ! 0 ! 1 = [[Fin 2, Fin 0], [Fin 0, Fin (2::real)]] ! 1 ! 0 \<and>
   pack 2 1 0 = 1 \<and> unpack 2 1 = (0, 1) \<and> pack 2 0 1 = 1 \<and>
   vector_to_matrix [Fin 1, Fin 2, Fin 3] 2 = Some [[Fin 1, Fin 2], [Fin 2, Fin 3]]"
proof -
  have e1: "numerical_hessian ex_runtime ex_model ex_objective (Arr2 [[Fin 1, Fin 1]]) ex_lower ex_upper 2 1 None
     = Some [[[Fin 2, Fin 0], [Fin 0, Fin 2]]]"
    by code_simp
  have e2: "vector_to_matrix [Fin 1, Fin 2, Fin 3] 2 = Some [[Fin 1, Fin 2], [Fin 2, Fin 3]]"
    by code_simp
  have e3: "pack 2 1 0 = 1" "unpack 2 1 = (0, 1)" "pack 2 0 1 = 1"
    by code_simp+
  have e4: "length (coords 2) = 3" by code_simp
  note t = hessian_symmetric_by_packing[of ex_runtime ex_model ex_objective "Arr2 [[Fin 1, Fin 1]]"
      ex_lower ex_upper 2 1 None "[[[Fin 2, Fin 0], [Fin 0, Fin 2]]]" 1 2 0 1 "[Fin 1, Fin 2, Fin 3]"]
  from t e1 have "[[Fin 2, Fin 0], [Fin 0, Fin 2]] ! 0 ! 1 = [[Fin 2, Fin 0], [Fin 0, Fin (2::real)]] ! 1 ! 0"
    by simp
  with e1 e2 e3 show ?thesis by simp
qed

section \<open>The Hessian: sizes and the treatment of a parameter vector\<close>

lemma those_length: "those xs = Some ys \<Longrightarrow> length ys = length xs"
  using those_Some_nth by blast

lemma compute_derivatives_length:
  "compute_derivatives m f P r off n lb ub = Some D \<Longrightarrow> length D = length P"
  by (auto simp: compute_derivatives_def split: bind_splits option.splits if_splits)

lemma richardson_extrapolation_length:
  "richardson_extrapolation rt D r = Some (R, E) \<Longrightarrow> length R = length D \<and> length E = length D"
  by (auto simp: richardson_extrapolation_def split: bind_splits if_splits)

lemma wynn_extrapolate_length:
  "wynn_extrapolate rt D = Some (R, E) \<Longrightarrow> length R = length D \<and> length E = length D"
  by (auto simp: wynn_extrapolate_def Let_def split: if_splits)

lemma first_candidate_length: "first_candidate D = Some V \<Longrightarrow> length V = length D"
  by (auto simp: first_candidate_def dest: those_length)

lemma finalize_derivatives_length: "finalize_derivatives s p V = Some H \<Longrightarrow> length H = length V"
  by (auto simp: finalize_derivatives_def results_vector_to_matrix_def split: bind_splits dest!: those_length)

lemma median_outlier_extrapolation_length:
  "snd (median_outlier_extrapolation D E) = Some (Df, Ef) \<Longrightarrow> length E = length D \<Longrightarrow> length Df = length D"
  by (auto simp: median_outlier_extrapolation_def Let_def split: option.splits dest!: those_length)

lemma numerical_hessian_length:
  assumes "numerical_hessian rt m f P lb ub r n off = Some Hs"
  shows "length Hs = length (case P of Arr1 xs \<Rightarrow> [xs] | Arr2 rows \<Rightarrow> rows)"
proof -
  let ?P = "case P of Arr1 xs \<Rightarrow> [xs] | Arr2 rows \<Rightarrow> rows"
  from assms obtain D where D: "compute_derivatives m f ?P r off n lb ub = Some D"
    by (auto simp: numerical_hessian_def Let_def split: bind_splits)
  have lD: "length D = length ?P" using D by (rule compute_derivatives_length)
  note fin = first_candidate_length finalize_derivatives_length
  show ?thesis
  proof (cases "n = 1")
    case True
    with assms D show ?thesis
      by (auto simp: numerical_hessian_def Let_def lD[symmetric] split: bind_splits dest!: fin)
  next
    case n1: False
    from assms D n1 obtain R E where RE: "richardson_extrapolation rt D r = Some (R, E)"
      by (auto simp: numerical_hessian_def Let_def split: bind_splits)
    have lR: "length R = length D" "length E = length D"
      using richardson_extrapolation_length[OF RE] by simp_all
    show ?thesis
    proof (cases "n \<le> 3")
      case True
      with assms D n1 RE show ?thesis
        by (auto simp: numerical_hessian_def Let_def lD[symmetric] lR[symmetric] split: bind_splits dest!: fin)
    next
      case n3: False
      from assms D n1 n3 RE obtain R' E' where
        W: "(if shape2 R > 2 then wynn_extrapolate rt R else Some (R, E)) = Some (R', E')"
        by (auto simp: numerical_hessian_def Let_def split: bind_splits)
      have lW: "length R' = length D" "length E' = length D"
        using W lR wynn_extrapolate_length[of rt R R' E'] by (auto split: if_splits)
      show ?thesis
      proof (cases "shape2 R' = 1")
        case True
        with assms D n1 n3 RE W show ?thesis
          by (auto simp: numerical_hessian_def Let_def lD[symmetric] lW[symmetric] split: bind_splits dest!: fin)
      next
        case False
        with assms D n1 n3 RE W obtain Df Ef where
          M: "snd (median_outlier_extrapolation R' E') = Some (Df, Ef)"
          and F: "finalize_derivatives (numdiff_get_scaling_factors m) (shape1 ?P) Df = Some Hs"
          by (auto simp: numerical_hessian_def Let_def split: bind_splits)
        have "length Df = length R'"
          using median_outlier_extrapolation_length[OF M] lW by simp
        then show ?thesis
          using finalize_derivatives_length[OF F] lW lD by simp
      qed
    qed
  qed
qed

text \<open>
  Claim C9.  A one-dimensional parameter array is treated as the single row of a matrix:
  the call returns what the call on the \<open>1 \<times> p\<close> matrix of the same values returns, and
  a returned Hessian has exactly one matrix.
\<close>

theorem vector_parameters_as_single_problem:
  "numerical_hessian rt m f (Arr1 xs) lb ub r n off = numerical_hessian rt m f (Arr2 [xs]) lb ub r n off \<and>
   (numerical_hessian rt m f (Arr1 xs) lb ub r n off = Some Hs \<longrightarrow> length Hs = 1)"
proof
  show "numerical_hessian rt m f (Arr1 xs) lb ub r n off = numerical_hessian rt m f (Arr2 [xs]) lb ub r n off"
    by (simp add: numerical_hessian_def)
  show "numerical_hessian rt m f (Arr1 xs) lb ub r n off = Some Hs \<longrightarrow> length Hs = 1"
    using numerical_hessian_length[of rt m f "Arr1 xs" lb ub r n off Hs] by simp
qed

theorem vector_parameters_as_single_problem_witness:
  "numerical_hessian ex_runtime ex_model ex_objective (Arr1 [Fin 2, Fin 1]) ex_lower ex_upper 2 1 None
     = Some [[[Fin 2, Fin 0], [Fin 0, Fin 2]]] \<and>
   numerical_hessian ex_runtime ex_model ex_objective (Arr2 [[Fin 2, Fin 1]]) ex_lower ex_upper 2 1 None
     = Some [[[Fin 2, Fin 0], [Fin 0, Fin 2]]] \<and>
   length [[[Fin 2, Fin 0], [Fin 0, Fin (2::real)]]] = 1"
proof -
  have e: "numerical_hessian ex_runtime ex_model ex_objective (Arr1 [Fin 2, Fin 1]) ex_lower ex_upper 2 1 None
     = Some [[[Fin 2, Fin 0], [Fin 0, Fin 2]]]"
    by code_simp
  from e vector_parameters_as_single_problem[of ex_runtime ex_model ex_objective "[Fin 2, Fin 1]"
      ex_lower ex_upper 2 1 None "[[[Fin 2, Fin 0], [Fin 0, Fin 2]]]"]
  show ?thesis by simp
qed

section \<open>The number of candidates\<close>

lemma has_shape_shape2:
  assumes "has_shape a d n s" "0 < d" "0 < n"
  shows "shape2 a = s"
proof -
  from assms obtain x xs where a: "a = x # xs" by (cases a) (auto simp: has_shape_def)
  with assms obtain y ys where x: "x = y # ys" by (cases x) (auto simp: has_shape_def)
  show ?thesis using assms(1) by (simp add: a x has_shape_def shape2_def shape1_def)
qed

lemma has_shape_map:
  assumes "has_shape a d n s" "\<And>row. length row = s \<Longrightarrow> length (f row) = t"
  shows "has_shape (map (map f) a) d n t"
  using assms by (auto simp: has_shape_def list_all_iff)

lemma length_apply_richardson_convolution [simp]:
  "length (apply_richardson_convolution s k c row) = k"
  by (simp add: apply_richardson_convolution_def)

lemma length_compute_richardson_errors [simp]:
  "length (compute_richardson_errors rt s k c row ex) = k - 1"
  by (simp add: compute_richardson_errors_def Let_def)

lemma richardson_extrapolation_shape:
  assumes sh: "has_shape D d n s" and pos: "0 < d" "0 < n" "1 \<le> s"
    and c: "get_richardson_coefficients rt r (min s 3 - 1) = Some c"
    and len: "length c \<le> s + 1"
  shows "\<exists>R E. richardson_extrapolation rt D r = Some (R, E) \<and>
           has_shape R d n (s + 1 - length c) \<and> has_shape E d n (s + 1 - length c)"
proof -
  have s2: "shape2 D = s" using sh pos(1,2) by (rule has_shape_shape2)
  let ?need = "int s - (int (length c) - 2)"
  have need: "\<not> (?need < 0 \<or> ?need - 1 < 0)" "nat ?need = s + 2 - length c"
    "nat ?need - 1 = s + 1 - length c" "nat (?need - 1) = s + 1 - length c"
    using len by auto
  let ?R = "map (map (\<lambda>row. py_slice_to (apply_richardson_convolution s (nat ?need) c row) (?need - 1))) D"
  let ?E = "map (map (\<lambda>row. compute_richardson_errors rt s (nat ?need) c row
                        (apply_richardson_convolution s (nat ?need) c row))) D"
  have m: "min s 3 \<noteq> 0" using pos(3) by simp
  have eq: "richardson_extrapolation rt D r = Some (?R, ?E)"
    unfolding richardson_extrapolation_def s2 using m c need(1) by simp
  have "has_shape ?R d n (s + 1 - length c)"
    by (rule has_shape_map[OF sh]) (use need len in \<open>simp add: py_slice_to_def\<close>)
  moreover have "has_shape ?E d n (s + 1 - length c)"
    by (rule has_shape_map[OF sh]) (use need in simp)
  ultimately show ?thesis using eq by blast
qed

lemma wynn_extrapolate_shape:
  assumes sh: "has_shape W d n k" and pos: "0 < d" "0 < n" "2 \<le> k"
  shows "\<exists>X Er. wynn_extrapolate rt W = Some (X, Er) \<and>
           has_shape X d n (k - 2) \<and> has_shape Er d n (k - 2)"
proof -
  have s2: "shape2 W = k" using sh pos(1,2) by (rule has_shape_shape2)
  have k: "\<not> int k - 2 < 0" "nat (int k - 2) = k - 2" using pos(3) by auto
  let ?X = "map (map (\<lambda>row. map (\<lambda>i. fst (wynn_step rt row i)) [0..<k - 2])) W"
  let ?Er = "map (map (\<lambda>row. map (\<lambda>i. snd (wynn_step rt row i)) [0..<k - 2])) W"
  have eq: "wynn_extrapolate rt W = Some (?X, ?Er)"
    unfolding wynn_extrapolate_def Let_def s2 using k by simp
  have "has_shape ?X d n (k - 2)" "has_shape ?Er d n (k - 2)"
    by (rule has_shape_map[OF sh], simp)+
  then show ?thesis using eq by blast
qed

text \<open>
  Claim C4.  On an array of \<open>s \<ge> 2\<close> steps per entry, with the coefficient vector built
  for \<open>min(s, 3) - 1\<close> extrapolation terms, the Richardson extrapolation returns
  \<open>s - (length c - 1)\<close> candidates (and as many errors) for every entry; the Wynn
  extrapolation returns \<open>k - 2\<close> values and errors for entries of \<open>k \<ge> 2\<close> candidates.
\<close>

theorem extrapolation_candidate_counts:
  "(has_shape D d n s \<and> 0 < d \<and> 0 < n \<and> 2 \<le> s \<and>
    get_richardson_coefficients rt r (min s 3 - 1) = Some c \<and> length c \<le> s + 1 \<longrightarrow>
      (\<exists>R E. richardson_extrapolation rt D r = Some (R, E) \<and>
         has_shape R d n (nat (int s - (int (length c) - 1))) \<and>
         has_shape E d n (nat (int s - (int (length c) - 1))))) \<and>
   (has_shape W d n k \<and> 0 < d \<and> 0 < n \<and> 2 \<le> k \<longrightarrow>
      (\<exists>X Er. wynn_extrapolate rt W = Some (X, Er) \<and>
         has_shape X d n (k - 2) \<and> has_shape Er d n (k - 2)))"
proof (intro conjI impI)
  assume a: "has_shape D d n s \<and> 0 < d \<and> 0 < n \<and> 2 \<le> s \<and>
    get_richardson_coefficients rt r (min s 3 - 1) = Some c \<and> length c \<le> s + 1"
  then have e: "nat (int s - (int (length c) - 1)) = s + 1 - length c" by auto
  from a show "\<exists>R E. richardson_extrapolation rt D r = Some (R, E) \<and>
         has_shape R d n (nat (int s - (int (length c) - 1))) \<and>
         has_shape E d n (nat (int s - (int (length c) - 1)))"
    unfolding e by (intro richardson_extrapolation_shape) auto
next
  assume "has_shape W d n k \<and> 0 < d \<and> 0 < n \<and> 2 \<le> k"
  then show "\<exists>X Er. wynn_extrapolate rt W = Some (X, Er) \<and>
         has_shape X d n (k - 2) \<and> has_shape Er d n (k - 2)"
    by (intro wynn_extrapolate_shape) auto
qed

lemma ex_coefficients:
  "get_richardson_coefficients ex_runtime 2 (min 4 3 - 1) = Some [Fin (1 / 45), Fin (- 4 / 9), Fin (64 / 45)]"
  by code_simp

theorem extrapolation_candidate_counts_witness:
  "has_shape [[[Fin 1, Fin 2, Fin 4, Fin 8]]] 1 1 4 \<and>
   get_richardson_coefficients ex_runtime 2 (min 4 3 - 1) = Some [Fin (1 / 45), Fin (- 4 / 9), Fin (64 / 45)] \<and>
   (\<exists>R E. richardson_extrapolation ex_runtime [[[Fin 1, Fin 2, Fin 4, Fin 8]]] 2 = Some (R, E) \<and>
      has_shape R 1 1 2 \<and> has_shape E 1 1 2) \<and>
   (\<exists>X Er. wynn_extrapolate ex_runtime [[[Fin 1, Fin 2, Fin 4, Fin 8]]] = Some (X, Er) \<and>
      has_shape X 1 1 2 \<and> has_shape Er 1 1 2)"
proof -
  have h: "has_shape [[[Fin 1, Fin 2, Fin 4, Fin 8]]] 1 1 4"
    by (simp add: has_shape_def)
  note t = extrapolation_candidate_counts[of "[[[Fin 1, Fin 2, Fin 4, Fin 8]]]" 1 1 4 ex_runtime 2
      "[Fin (1 / 45), Fin (- 4 / 9), Fin (64 / 45)]" "[[[Fin 1, Fin 2, Fin 4, Fin 8]]]" 4]
  from t h ex_coefficients show ?thesis by simp
qed

section \<open>One, two or three steps\<close>

lemma those_map_Some: "those (map (\<lambda>x. Some (f x)) xs) = Some (map f xs)"
  by (induction xs) simp_all

lemma those_cong_Some:
  assumes "\<And>x. x \<in> set xs \<Longrightarrow> g x = Some (f x)"
  shows "those (map g xs) = Some (map f xs)"
proof -
  have "map g xs = map (\<lambda>x. Some (f x)) xs" using assms by simp
  then show ?thesis by (simp only: those_map_Some)
qed

lemma compute_derivatives_shape:
  assumes "compute_derivatives m f P r off n lb ub = Some D"
  shows "has_shape D (length P) (length (coords (shape1 P))) n"
  using assms
  by (auto simp: compute_derivatives_def has_shape_def list_all_iff derivation_kernel_def
        compute_steps_def Let_def split: bind_splits option.splits if_splits)

lemma first_candidate_shape:
  assumes "has_shape D d n s" "0 < s"
  shows "first_candidate D = Some (map (map (\<lambda>row. row ! 0)) D)"
  unfolding first_candidate_def
proof (rule those_cong_Some)
  fix ds assume "ds \<in> set D"
  then have "\<And>row. row \<in> set ds \<Longrightarrow> nth_opt row 0 = Some (row ! 0)"
    using assms by (auto simp: has_shape_def list_all_iff nth_opt_def)
  then show "those (map (\<lambda>d. nth_opt d 0) ds) = Some (map (\<lambda>row. row ! 0) ds)"
    by (rule those_cong_Some)
qed

lemma reflect_less: "k < n \<Longrightarrow> reflect n k = k"
  by (simp add: reflect_def)

lemma foldl_cong_set:
  assumes "\<And>acc x. x \<in> set xs \<Longrightarrow> f acc x = g acc x"
  shows "foldl f a xs = foldl g a xs"
  using assms by (induction xs arbitrary: a) simp_all

lemma first_convolution:
  assumes "length c \<le> n" "0 < k"
  shows "apply_richardson_convolution n k c row ! 0 = weighted_sum c row"
proof -
  have "apply_richardson_convolution n k c row ! 0 =
        foldl (\<lambda>acc kernel_ind. fadd acc (fmul (row ! reflect n (0 + kernel_ind)) (c ! kernel_ind)))
          0 [0..<length c]"
    using assms(2) by (simp add: apply_richardson_convolution_def)
  also have "\<dots> = weighted_sum c row"
    unfolding weighted_sum_def
    by (rule foldl_cong_set) (use assms(1) in \<open>simp add: reflect_less\<close>)
  finally show ?thesis .
qed

lemma richardson_first_candidate:
  assumes sh: "has_shape D d n s" and pos: "0 < d" "0 < n" "1 \<le> s"
    and c: "get_richardson_coefficients rt r (min s 3 - 1) = Some c"
    and len: "length c \<le> s"
    and RE: "richardson_extrapolation rt D r = Some (R, E)"
  shows "first_candidate R = Some (map (map (weighted_sum c)) D)"
proof -
  have s2: "shape2 D = s" using sh pos(1,2) by (rule has_shape_shape2)
  let ?need = "int s - (int (length c) - 2)"
  have need: "\<not> (?need < 0 \<or> ?need - 1 < 0)" "0 < nat ?need" "0 < nat (?need - 1)" "\<not> ?need - 1 < 0"
    using len by auto
  have m: "min s 3 \<noteq> 0" using pos(3) by simp
  have R: "R = map (map (\<lambda>row. py_slice_to (apply_richardson_convolution s (nat ?need) c row) (?need - 1))) D"
    using RE unfolding richardson_extrapolation_def s2 using m c need(1) by simp
  have "first_candidate R = Some (map (map (\<lambda>row. row ! 0)) R)"
  proof (rule first_candidate_shape)
    show "has_shape R d n (nat (?need - 1))"
      unfolding R by (rule has_shape_map[OF sh]) (use need in \<open>simp add: py_slice_to_def\<close>)
    show "0 < nat (?need - 1)" by (rule need(3))
  qed
  also have "map (map (\<lambda>row. row ! 0)) R = map (map (weighted_sum c)) D"
    unfolding R using need len
    by (simp add: py_slice_to_def comp_def first_convolution)
  finally show ?thesis .
qed

text \<open>
  Claim C1.  With one step the returned Hessian is the finalised (matrix-shaped and
  rescaled) array of the raw central differences, the single step value of every entry.
  With two or three steps it is the finalised array of the first Richardson candidates:
  for every entry the sum of the raw step values weighted by the Richardson coefficients.
  The Wynn extrapolation and the selection have no part in either result.
\<close>

theorem few_steps_hessian:
  "(compute_derivatives m f (case P of Arr1 xs \<Rightarrow> [xs] | Arr2 rows \<Rightarrow> rows) r off 1 lb ub = Some D \<longrightarrow>
      numerical_hessian rt m f P lb ub r 1 off =
        finalize_derivatives (numdiff_get_scaling_factors m)
          (shape1 (case P of Arr1 xs \<Rightarrow> [xs] | Arr2 rows \<Rightarrow> rows)) (map (map (\<lambda>row. row ! 0)) D)) \<and>
   ((n = 2 \<or> n = 3) \<and>
    compute_derivatives m f (case P of Arr1 xs \<Rightarrow> [xs] | Arr2 rows \<Rightarrow> rows) r off n lb ub = Some D' \<and>
    (case P of Arr1 xs \<Rightarrow> [xs] | Arr2 rows \<Rightarrow> rows) \<noteq> [] \<and>
    0 < shape1 (case P of Arr1 xs \<Rightarrow> [xs] | Arr2 rows \<Rightarrow> rows) \<and>
    get_richardson_coefficients rt r (n - 1) = Some c \<and> length c = n \<longrightarrow>
      numerical_hessian rt m f P lb ub r n off =
        finalize_derivatives (numdiff_get_scaling_factors m)
          (shape1 (case P of Arr1 xs \<Rightarrow> [xs] | Arr2 rows \<Rightarrow> rows)) (map (map (weighted_sum c)) D'))"
proof (intro conjI impI)
  let ?P = "case P of Arr1 xs \<Rightarrow> [xs] | Arr2 rows \<Rightarrow> rows"
  assume D: "compute_derivatives m f ?P r off 1 lb ub = Some D"
  have "first_candidate D = Some (map (map (\<lambda>row. row ! 0)) D)"
    by (rule first_candidate_shape[OF compute_derivatives_shape[OF D]]) simp
  then show "numerical_hessian rt m f P lb ub r 1 off =
        finalize_derivatives (numdiff_get_scaling_factors m) (shape1 ?P) (map (map (\<lambda>row. row ! 0)) D)"
    using D by (simp add: numerical_hessian_def)
next
  let ?P = "case P of Arr1 xs \<Rightarrow> [xs] | Arr2 rows \<Rightarrow> rows"
  assume a: "(n = 2 \<or> n = 3) \<and> compute_derivatives m f ?P r off n lb ub = Some D' \<and> ?P \<noteq> [] \<and>
    0 < shape1 ?P \<and> get_richardson_coefficients rt r (n - 1) = Some c \<and> length c = n"
  then have n: "n = 2 \<or> n = 3" and D: "compute_derivatives m f ?P r off n lb ub = Some D'"
    and c: "get_richardson_coefficients rt r (n - 1) = Some c" and len: "length c = n"
    and d: "0 < length ?P" and p: "0 < shape1 ?P"
    by simp_all
  have sh: "has_shape D' (length ?P) (length (coords (shape1 ?P))) n"
    using D by (rule compute_derivatives_shape)
  have nd: "0 < length (coords (shape1 ?P))"
  proof -
    have "(0, 0) \<in> set (coords (shape1 ?P))" using p by (simp add: set_coords)
    then show ?thesis by (cases "coords (shape1 ?P)") simp_all
  qed
  have mn: "min n 3 - 1 = n - 1" "1 \<le> n" "n \<noteq> 1" "n \<le> 3" using n by auto
  have c': "get_richardson_coefficients rt r (min n 3 - 1) = Some c" using c mn by simp
  have "length c \<le> n + 1" using len by simp
  from richardson_extrapolation_shape[OF sh d nd mn(2) c' this]
  obtain R E where RE: "richardson_extrapolation rt D' r = Some (R, E)" by blast
  have fc: "first_candidate R = Some (map (map (weighted_sum c)) D')"
    by (rule richardson_first_candidate[OF sh d nd mn(2) c' _ RE]) (simp add: len)
  show "numerical_hessian rt m f P lb ub r n off =
        finalize_derivatives (numdiff_get_scaling_factors m) (shape1 ?P) (map (map (weighted_sum c)) D')"
    using D RE fc mn(3,4) by (simp add: numerical_hessian_def)
qed

lemma ex_derivatives_1:
  "compute_derivatives ex_model ex_quartic [[Fin 1, Fin 1]] 2 None 1 ex_lower ex_upper =
     Some [[[Fin (601 / 50)], [Fin (1 / 2)], [Fin (1 / 2)]]]"
  by code_simp

lemma ex_derivatives_2:
  "compute_derivatives ex_model ex_quartic [[Fin 1, Fin 1]] 2 None 2 ex_lower ex_upper =
     Some [[[Fin (601 / 50), Fin (2401 / 200)], [Fin (1 / 2), Fin (1 / 2)], [Fin (1 / 2), Fin (1 / 2)]]]"
  by code_simp

lemma ex_coefficients_2:
  "get_richardson_coefficients ex_runtime 2 (2 - 1) = Some [Fin (- 1 / 3), Fin (4 / 3)]"
  by code_simp

lemma ex_finalize_1:
  "finalize_derivatives (numdiff_get_scaling_factors ex_model) (shape1 [[Fin 1, Fin 1]])
     (map (map (\<lambda>row. row ! 0)) [[[Fin (601 / 50)], [Fin (1 / 2)], [Fin (1 / 2)]]]) =
   Some [[[Fin (601 / 50), Fin 1], [Fin 1, Fin 2]]]"
  by code_simp

lemma ex_finalize_2:
  "finalize_derivatives (numdiff_get_scaling_factors ex_model) (shape1 [[Fin 1, Fin 1]])
     (map (map (weighted_sum [Fin (- 1 / 3), Fin (4 / 3)]))
        [[[Fin (601 / 50), Fin (2401 / 200)], [Fin (1 / 2), Fin (1 / 2)], [Fin (1 / 2), Fin (1 / 2)]]]) =
   Some [[[Fin 12, Fin 1], [Fin 1, Fin 2]]]"
  by code_simp

theorem few_steps_hessian_witness:
  "numerical_hessian ex_runtime ex_model ex_quartic (Arr2 [[Fin 1, Fin 1]]) ex_lower ex_upper 2 1 None =
     Some [[[Fin (601 / 50), Fin 1], [Fin 1, Fin 2]]] \<and>
   numerical_hessian ex_runtime ex_model ex_quartic (Arr2 [[Fin 1, Fin 1]]) ex_lower ex_upper 2 2 None =
     Some [[[Fin 12, Fin 1], [Fin 1, Fin 2]]]"
proof -
  note t = few_steps_hessian[of ex_model ex_quartic "Arr2 [[Fin 1, Fin 1]]" 2 None ex_lower ex_upper
      "[[[Fin (601 / 50)], [Fin (1 / 2)], [Fin (1 / 2)]]]" ex_runtime 2
      "[[[Fin (601 / 50), Fin (2401 / 200)], [Fin (1 / 2), Fin (1 / 2)], [Fin (1 / 2), Fin (1 / 2)]]]"
      "[Fin (- 1 / 3), Fin (4 / 3)]"]
  have p: "0 < shape1 [[Fin 1, Fin (1::real)]]" by (simp add: shape1_def)
  from t ex_derivatives_1 ex_derivatives_2 ex_coefficients_2 p
  have "numerical_hessian ex_runtime ex_model ex_quartic (Arr2 [[Fin 1, Fin 1]]) ex_lower ex_upper 2 1 None =
      finalize_derivatives (numdiff_get_scaling_factors ex_model) (shape1 [[Fin 1, Fin 1]])
       (map (map (\<lambda>row. row ! 0)) [[[Fin (601 / 50)], [Fin (1 / 2)], [Fin (1 / 2)]]])"
    and "numerical_hessian ex_runtime ex_model ex_quartic (Arr2 [[Fin 1, Fin 1]]) ex_lower ex_upper 2 2 None =
      finalize_derivatives (numdiff_get_scaling_factors ex_model) (shape1 [[Fin 1, Fin 1]])
       (map (map (weighted_sum [Fin (- 1 / 3), Fin (4 / 3)]))
          [[[Fin (601 / 50), Fin (2401 / 200)], [Fin (1 / 2), Fin (1 / 2)], [Fin (1 / 2), Fin (1 / 2)]]])"
    by simp_all
  then show ?thesis
    by (simp only: ex_finalize_1 ex_finalize_2)
qed

section \<open>The Wynn extrapolation in the pipeline\<close>

lemma ex_coefficients_3:
  "get_richardson_coefficients ex_runtime 2 2 = Some [Fin (1 / 45), Fin (- 4 / 9), Fin (64 / 45)]"
  by code_simp

lemma extrapolate_candidates_shape:
  assumes sh: "has_shape D d n s" and pos: "0 < d" "0 < n" "4 \<le> s"
    and c: "get_richardson_coefficients rt r 2 = Some c" and len: "length c = 3"
  shows "\<exists>R E. richardson_extrapolation rt D r = Some (R, E) \<and> has_shape R d n (s - 2) \<and>
           has_shape E d n (s - 2) \<and>
           (s = 4 \<longrightarrow> extrapolate_candidates rt D r = Some (R, E)) \<and>
           (5 \<le> s \<longrightarrow> (\<exists>X Er. wynn_extrapolate rt R = Some (X, Er) \<and>
                          extrapolate_candidates rt D r = Some (X, Er) \<and>
                          has_shape X d n (s - 4) \<and> has_shape Er d n (s - 4)))"
proof -
  have c': "get_richardson_coefficients rt r (min s 3 - 1) = Some c"
    using c pos(3) by (simp add: min_def)
  have "1 \<le> s" "length c \<le> s + 1" using pos(3) len by simp_all
  from richardson_extrapolation_shape[OF sh pos(1,2) this(1) c' this(2)]
  obtain R E where RE: "richardson_extrapolation rt D r = Some (R, E)"
    and shR: "has_shape R d n (s - 2)" and shE: "has_shape E d n (s - 2)"
    using len by auto
  have s2: "shape2 R = s - 2" using shR pos(1,2) by (rule has_shape_shape2)
  have four: "extrapolate_candidates rt D r = Some (R, E)" if "s = 4"
    using that RE s2 by (simp add: extrapolate_candidates_def)
  have five: "\<exists>X Er. wynn_extrapolate rt R = Some (X, Er) \<and>
                extrapolate_candidates rt D r = Some (X, Er) \<and>
                has_shape X d n (s - 4) \<and> has_shape Er d n (s - 4)" if s5: "5 \<le> s"
  proof -
    have "2 \<le> s - 2" using s5 by simp
    from wynn_extrapolate_shape[OF shR pos(1,2) this, of rt]
    obtain X Er where W: "wynn_extrapolate rt R = Some (X, Er)"
      and shX: "has_shape X d n (s - 2 - 2)" "has_shape Er d n (s - 2 - 2)" by blast
    have "2 < s - 2" using s5 by simp
    then have "extrapolate_candidates rt D r = Some (X, Er)"
      using RE s2 W by (simp add: extrapolate_candidates_def)
    then show ?thesis using W shX by (auto simp: diff_diff_left)
  qed
  show ?thesis using RE shR shE four five by blast
qed

lemma candidate_count_shape:
  "res = Some (X, Er) \<Longrightarrow> has_shape X d n s \<Longrightarrow> 0 < d \<Longrightarrow> 0 < n \<Longrightarrow> candidate_count res = Some s"
  by (simp add: candidate_count_def has_shape_shape2)

lemma numerical_hessian_via_candidates:
  assumes "3 < n"
  shows "numerical_hessian rt m f P lb ub r n off =
     do {
       D \<leftarrow> compute_derivatives m f (case P of Arr1 xs \<Rightarrow> [xs] | Arr2 rows \<Rightarrow> rows) r off n lb ub;
       (X, Er) \<leftarrow> extrapolate_candidates rt D r;
       if shape2 X = 1 then
         first_candidate X \<bind>
           finalize_derivatives (numdiff_get_scaling_factors m)
             (shape1 (case P of Arr1 xs \<Rightarrow> [xs] | Arr2 rows \<Rightarrow> rows))
       else
         do {
           (Df, Ef) \<leftarrow> snd (median_outlier_extrapolation X Er);
           finalize_derivatives (numdiff_get_scaling_factors m)
             (shape1 (case P of Arr1 xs \<Rightarrow> [xs] | Arr2 rows \<Rightarrow> rows)) Df
         }
     }"
  using assms
  by (simp add: numerical_hessian_def extrapolate_candidates_def Let_def
        split: bind_split prod.split)

lemma ex_steps7_counts:
  "candidate_count (richardson_extrapolation ex_runtime ex_steps7 2) = Some 5"
  "candidate_count (extrapolate_candidates ex_runtime ex_steps7 2) = Some 3"
proof -
  have sh: "has_shape ex_steps7 1 1 7" by (simp add: has_shape_def ex_steps7_def)
  from extrapolate_candidates_shape[OF sh _ _ _ ex_coefficients_3]
  obtain R E X Er where "richardson_extrapolation ex_runtime ex_steps7 2 = Some (R, E)"
    "has_shape R 1 1 5" "extrapolate_candidates ex_runtime ex_steps7 2 = Some (X, Er)"
    "has_shape X 1 1 3"
    by auto
  then show "candidate_count (richardson_extrapolation ex_runtime ex_steps7 2) = Some 5"
    "candidate_count (extrapolate_candidates ex_runtime ex_steps7 2) = Some 3"
    by (auto intro: candidate_count_shape)
qed

lemma ex_steps4_counts:
  "candidate_count (richardson_extrapolation ex_runtime ex_steps4 2) = Some 2"
  "extrapolate_candidates ex_runtime ex_steps4 2 = richardson_extrapolation ex_runtime ex_steps4 2"
proof -
  have sh: "has_shape ex_steps4 1 1 4" by (simp add: has_shape_def ex_steps4_def)
  from extrapolate_candidates_shape[OF sh _ _ _ ex_coefficients_3]
  obtain R E where "richardson_extrapolation ex_runtime ex_steps4 2 = Some (R, E)"
    "has_shape R 1 1 2" "extrapolate_candidates ex_runtime ex_steps4 2 = Some (R, E)"
    by auto
  then show "candidate_count (richardson_extrapolation ex_runtime ex_steps4 2) = Some 2"
    "extrapolate_candidates ex_runtime ex_steps4 2 = richardson_extrapolation ex_runtime ex_steps4 2"
    by (auto intro: candidate_count_shape)
qed

text \<open>
  Claim C5, as the code has it.  With at least four steps and the three-coefficient rule,
  \<open>n - 2\<close> Richardson candidates remain.  The Wynn extrapolation is applied when more than
  two of them remain, that is from five steps on, and it is applied once: it leaves
  \<open>n - 4\<close> values.  With five steps the single value is returned; with six or more steps
  the \<open>n - 4\<close> values and their errors go to the selection; with four steps the two
  Richardson candidates go to the selection as they are.
\<close>

theorem wynn_applied_once:
  "4 \<le> n \<and>
   compute_derivatives m f (case P of Arr1 xs \<Rightarrow> [xs] | Arr2 rows \<Rightarrow> rows) r off n lb ub = Some D \<and>
   (case P of Arr1 xs \<Rightarrow> [xs] | Arr2 rows \<Rightarrow> rows) \<noteq> [] \<and>
   0 < shape1 (case P of Arr1 xs \<Rightarrow> [xs] | Arr2 rows \<Rightarrow> rows) \<and>
   get_richardson_coefficients rt r 2 = Some c \<and> length c = 3 \<longrightarrow>
   (\<exists>R E. richardson_extrapolation rt D r = Some (R, E) \<and>
      candidate_count (Some (R, E)) = Some (n - 2) \<and>
      (n = 4 \<longrightarrow>
         numerical_hessian rt m f P lb ub r n off =
           snd (median_outlier_extrapolation R E) \<bind>
             (\<lambda>(Df, Ef). finalize_derivatives (numdiff_get_scaling_factors m)
                (shape1 (case P of Arr1 xs \<Rightarrow> [xs] | Arr2 rows \<Rightarrow> rows)) Df)) \<and>
      (5 \<le> n \<longrightarrow>
         (\<exists>X Er. wynn_extrapolate rt R = Some (X, Er) \<and>
            candidate_count (Some (X, Er)) = Some (n - 4) \<and>
            (n = 5 \<longrightarrow>
               numerical_hessian rt m f P lb ub r n off =
                 first_candidate X \<bind>
                   finalize_derivatives (numdiff_get_scaling_factors m)
                     (shape1 (case P of Arr1 xs \<Rightarrow> [xs] | Arr2 rows \<Rightarrow> rows))) \<and>
            (6 \<le> n \<longrightarrow>
               numerical_hessian rt m f P lb ub r n off =
                 snd (median_outlier_extrapolation X Er) \<bind>
                   (\<lambda>(Df, Ef). finalize_derivatives (numdiff_get_scaling_factors m)
                      (shape1 (case P of Arr1 xs \<Rightarrow> [xs] | Arr2 rows \<Rightarrow> rows)) Df)))))"
proof
  let ?P = "case P of Arr1 xs \<Rightarrow> [xs] | Arr2 rows \<Rightarrow> rows"
  let ?d = "length ?P" and ?nd = "length (coords (shape1 ?P))"
  let ?fin = "finalize_derivatives (numdiff_get_scaling_factors m) (shape1 ?P)"
  assume a: "4 \<le> n \<and> compute_derivatives m f ?P r off n lb ub = Some D \<and> ?P \<noteq> [] \<and>
    0 < shape1 ?P \<and> get_richardson_coefficients rt r 2 = Some c \<and> length c = 3"
  then have n4: "4 \<le> n" and D: "compute_derivatives m f ?P r off n lb ub = Some D"
    and d: "0 < ?d" and p: "0 < shape1 ?P"
    and c: "get_richardson_coefficients rt r 2 = Some c" and len: "length c = 3"
    by simp_all
  have sh: "has_shape D ?d ?nd n" using D by (rule compute_derivatives_shape)
  have nd: "0 < ?nd"
  proof -
    have "(0, 0) \<in> set (coords (shape1 ?P))" using p by (simp add: set_coords)
    then show ?thesis by (cases "coords (shape1 ?P)") simp_all
  qed
  from extrapolate_candidates_shape[OF sh d nd n4 c len]
  obtain R E where RE: "richardson_extrapolation rt D r = Some (R, E)"
    and shR: "has_shape R ?d ?nd (n - 2)"
    and four: "n = 4 \<Longrightarrow> extrapolate_candidates rt D r = Some (R, E)"
    and five: "5 \<le> n \<Longrightarrow> \<exists>X Er. wynn_extrapolate rt R = Some (X, Er) \<and>
                  extrapolate_candidates rt D r = Some (X, Er) \<and>
                  has_shape X ?d ?nd (n - 4) \<and> has_shape Er ?d ?nd (n - 4)"
    by blast
  have via: "numerical_hessian rt m f P lb ub r n off =
      do {
        D \<leftarrow> compute_derivatives m f ?P r off n lb ub;
        (X, Er) \<leftarrow> extrapolate_candidates rt D r;
        if shape2 X = 1 then first_candidate X \<bind> ?fin
        else do { (Df, Ef) \<leftarrow> snd (median_outlier_extrapolation X Er); ?fin Df }
      }"
    by (rule numerical_hessian_via_candidates) (use n4 in simp)
  have cR: "candidate_count (Some (R, E)) = Some (n - 2)"
    by (rule candidate_count_shape[OF refl shR d nd])
  have c4: "numerical_hessian rt m f P lb ub r n off =
      snd (median_outlier_extrapolation R E) \<bind> (\<lambda>(Df, Ef). ?fin Df)" if "n = 4"
  proof -
    have "shape2 R = 2" using has_shape_shape2[OF shR d nd] that by simp
    then show ?thesis unfolding via using D four[OF that] by simp
  qed
  have c5: "\<exists>X Er. wynn_extrapolate rt R = Some (X, Er) \<and>
            candidate_count (Some (X, Er)) = Some (n - 4) \<and>
            (n = 5 \<longrightarrow> numerical_hessian rt m f P lb ub r n off = first_candidate X \<bind> ?fin) \<and>
            (6 \<le> n \<longrightarrow> numerical_hessian rt m f P lb ub r n off =
                 snd (median_outlier_extrapolation X Er) \<bind> (\<lambda>(Df, Ef). ?fin Df))" if n5: "5 \<le> n"
  proof -
    from five[OF n5] obtain X Er where W: "wynn_extrapolate rt R = Some (X, Er)"
      and X: "extrapolate_candidates rt D r = Some (X, Er)"
      and shX: "has_shape X ?d ?nd (n - 4)" by blast
    have s2: "shape2 X = n - 4" using shX d nd by (rule has_shape_shape2)
    have cX: "candidate_count (Some (X, Er)) = Some (n - 4)"
      by (rule candidate_count_shape[OF refl shX d nd])
    have e5: "numerical_hessian rt m f P lb ub r n off = first_candidate X \<bind> ?fin" if "n = 5"
      unfolding via using D X s2 that by simp
    have e6: "numerical_hessian rt m f P lb ub r n off =
                 snd (median_outlier_extrapolation X Er) \<bind> (\<lambda>(Df, Ef). ?fin Df)" if "6 \<le> n"
    proof -
      have "shape2 X \<noteq> 1" using s2 that by simp
      then show ?thesis unfolding via using D X by simp
    qed
    show ?thesis using W cX e5 e6 by blast
  qed
  show "\<exists>R E. richardson_extrapolation rt D r = Some (R, E) \<and>
      candidate_count (Some (R, E)) = Some (n - 2) \<and>
      (n = 4 \<longrightarrow> numerical_hessian rt m f P lb ub r n off =
           snd (median_outlier_extrapolation R E) \<bind> (\<lambda>(Df, Ef). ?fin Df)) \<and>
      (5 \<le> n \<longrightarrow>
         (\<exists>X Er. wynn_extrapolate rt R = Some (X, Er) \<and>
            candidate_count (Some (X, Er)) = Some (n - 4) \<and>
            (n = 5 \<longrightarrow> numerical_hessian rt m f P lb ub r n off = first_candidate X \<bind> ?fin) \<and>
            (6 \<le> n \<longrightarrow> numerical_hessian rt m f P lb ub r n off =
                 snd (median_outlier_extrapolation X Er) \<bind> (\<lambda>(Df, Ef). ?fin Df))))"
    using RE cR c4 c5 by blast
qed

lemma ex_derivatives_5:
  "compute_derivatives ex_model ex_objective [[Fin 1, Fin 1]] 2 None 5 ex_lower ex_upper =
     Some [[[Fin 2, Fin 2, Fin 2, Fin 2, Fin 2], [Fin 0, Fin 0, Fin 0, Fin 0, Fin 0],
            [Fin (1 / 2), Fin (1 / 2), Fin (1 / 2), Fin (1 / 2), Fin (1 / 2)]]]"
  by code_simp

theorem wynn_applied_once_witness:
  "\<exists>R E. richardson_extrapolation ex_runtime
       [[[Fin 2, Fin 2, Fin 2, Fin 2, Fin 2], [Fin 0, Fin 0, Fin 0, Fin 0, Fin 0],
         [Fin (1 / 2), Fin (1 / 2), Fin (1 / 2), Fin (1 / 2), Fin (1 / 2)]]] 2 = Some (R, E) \<and>
     candidate_count (Some (R, E)) = Some 3 \<and>
     (\<exists>X Er. wynn_extrapolate ex_runtime R = Some (X, Er) \<and>
        candidate_count (Some (X, Er)) = Some 1 \<and>
        numerical_hessian ex_runtime ex_model ex_objective (Arr2 [[Fin 1, Fin 1]]) ex_lower ex_upper 2 5 None =
          first_candidate X \<bind>
            finalize_derivatives (numdiff_get_scaling_factors ex_model) (shape1 [[Fin 1, Fin 1]]))"
proof -
  note t = wynn_applied_once[of 5 ex_model ex_objective "Arr2 [[Fin 1, Fin 1]]" 2 None ex_lower ex_upper
      "[[[Fin 2, Fin 2, Fin 2, Fin 2, Fin 2], [Fin 0, Fin 0, Fin 0, Fin 0, Fin 0],
         [Fin (1 / 2), Fin (1 / 2), Fin (1 / 2), Fin (1 / 2), Fin (1 / 2)]]]" ex_runtime
      "[Fin (1 / 45), Fin (- 4 / 9), Fin (64 / 45)]"]
  have p: "0 < shape1 [[Fin 1, Fin (1::real)]]" by (simp add: shape1_def)
  from t ex_derivatives_5 ex_coefficients_3 p show ?thesis by simp
qed

text \<open>
  The claim as stated fails.  On an entry with seven steps five Richardson candidates
  remain and the extrapolation stage hands three values to the selection: the Wynn
  extrapolation is not repeated until at most two remain.  On an entry with four steps
  (more than three) two Richardson candidates remain and the Wynn extrapolation is not
  applied: the stage returns what the Richardson extrapolation returned.
\<close>

theorem wynn_not_repeated_counterexample:
  "candidate_count (richardson_extrapolation ex_runtime ex_steps7 2) = Some 5 \<and>
   candidate_count (extrapolate_candidates ex_runtime ex_steps7 2) = Some 3 \<and>
   candidate_count (richardson_extrapolation ex_runtime ex_steps4 2) = Some 2 \<and>
   extrapolate_candidates ex_runtime ex_steps4 2 = richardson_extrapolation ex_runtime ex_steps4 2"
  using ex_steps7_counts ex_steps4_counts by simp

section \<open>The selection of the best estimate\<close>

lemma median_state_derivatives:
  assumes "same_entries D E" "i < length E" "j < length (E ! i)"
  shows "fst (fst (median_outlier_extrapolation D E)) ! i ! j = with_sentinel (E ! i ! j) (D ! i ! j)"
  using assms
  by (simp add: median_outlier_extrapolation_def Let_def same_entries_def with_sentinel_def)

lemma median_state_errors:
  assumes "same_entries D E" "i < length E" "j < length (E ! i)"
  shows "snd (fst (median_outlier_extrapolation D E)) ! i ! j = penalised_errors (D ! i ! j) (E ! i ! j)"
  using assms
  by (simp add: median_outlier_extrapolation_def Let_def same_entries_def with_sentinel_def
        penalised_errors_def)

lemma median_state_lengths:
  assumes "same_entries D E"
  shows "length (fst (fst (median_outlier_extrapolation D E))) = length E"
    "length (snd (fst (median_outlier_extrapolation D E))) = length E"
    "i < length E \<Longrightarrow> length (fst (fst (median_outlier_extrapolation D E)) ! i) = length (E ! i)"
    "i < length E \<Longrightarrow> length (snd (fst (median_outlier_extrapolation D E)) ! i) = length (E ! i)"
  using assms
  by (simp_all add: median_outlier_extrapolation_def Let_def same_entries_def)

lemma median_result:
  assumes se: "same_entries D E" and ij: "i < length E" "j < length (E ! i)"
    and res: "snd (median_outlier_extrapolation D E) = Some (Df, Ef)"
  shows "\<exists>k. nanargmin (penalised_errors (D ! i ! j) (E ! i ! j)) = Some k \<and>
           Df ! i ! j = (if all_nan_entry (E ! i ! j) then NaN else with_sentinel (E ! i ! j) (D ! i ! j) ! k) \<and>
           Ef ! i ! j = (if all_nan_entry (E ! i ! j) then NaN else penalised_errors (D ! i ! j) (E ! i ! j) ! k)"
proof -
  let ?D' = "fst (fst (median_outlier_extrapolation D E))"
  let ?E' = "snd (fst (median_outlier_extrapolation D E))"
  from res obtain minpos where mp: "those (map (\<lambda>es. those (map nanargmin es)) ?E') = Some minpos"
    and Df: "Df = map (\<lambda>(ds, an). map (\<lambda>(d, a). if a then NaN else d) (zip ds an))
                (zip (map (\<lambda>(ds, ms). map (\<lambda>(d, mp). d ! mp) (zip ds ms)) (zip ?D' minpos))
                     (map (map all_nan_entry) E))"
    and Ef: "Ef = map (\<lambda>(es, an). map (\<lambda>(e, a). if a then NaN else e) (zip es an))
                (zip (map (\<lambda>(es, ms). map (\<lambda>(e, mp). e ! mp) (zip es ms)) (zip ?E' minpos))
                     (map (map all_nan_entry) E))"
    by (auto simp: median_outlier_extrapolation_def Let_def split: option.splits)
  note L = median_state_lengths[OF se]
  from those_Some_nth[OF mp] ij L
  have lm: "length minpos = length E" and mi: "those (map nanargmin (?E' ! i)) = Some (minpos ! i)"
    by auto
  from those_Some_nth[OF mi] ij L
  have lmi: "length (minpos ! i) = length (E ! i)" and k: "nanargmin (?E' ! i ! j) = Some (minpos ! i ! j)"
    by auto
  have "Df ! i ! j = (if all_nan_entry (E ! i ! j) then NaN else ?D' ! i ! j ! (minpos ! i ! j))"
    unfolding Df using ij L lm lmi by simp
  moreover have "Ef ! i ! j = (if all_nan_entry (E ! i ! j) then NaN else ?E' ! i ! j ! (minpos ! i ! j))"
    unfolding Ef using ij L lm lmi by simp
  ultimately show ?thesis
    using k unfolding median_state_derivatives[OF se ij] median_state_errors[OF se ij]
    by blast
qed

lemma flt_irrefl: "\<not> flt x x"
  by (cases x) simp_all

lemma flt_trans: "flt a b \<Longrightarrow> flt b c \<Longrightarrow> flt a c"
  by (cases a; cases b; cases c) simp_all

lemma flt_total: "\<not> isnan a \<Longrightarrow> \<not> isnan b \<Longrightarrow> \<not> flt a b \<Longrightarrow> \<not> flt b a \<Longrightarrow> a = b"
  by (cases a; cases b) simp_all

lemma flt_le_trans: "\<not> isnan b \<Longrightarrow> \<not> isnan c \<Longrightarrow> flt a b \<Longrightarrow> \<not> flt c b \<Longrightarrow> flt a c"
  by (cases a; cases b; cases c) simp_all

lemma nan_to_inf_not_nan [simp]: "\<not> isnan (nan_to_inf x)"
  by (cases x) (simp_all add: nan_to_inf_def)

lemma argmin_from_first_minimum:
  assumes "\<forall>y\<in>set (pre @ xs). \<not> isnan y" "first_minimum pre bi"
  shows "first_minimum (pre @ xs) (argmin_from xs (length pre) bi (pre ! bi))"
  using assms
proof (induction xs arbitrary: pre bi)
  case Nil
  then show ?case by simp
next
  case (Cons x xs)
  let ?b = "pre ! bi"
  have bi: "bi < length pre" and mn: "\<And>j. j < length pre \<Longrightarrow> \<not> flt (pre ! j) ?b"
    and fs: "\<And>j. j < bi \<Longrightarrow> flt ?b (pre ! j)"
    using Cons.prems(2) by (auto simp: first_minimum_def)
  have nn: "\<And>j. j < length pre \<Longrightarrow> \<not> isnan (pre ! j)" "\<not> isnan x"
    using Cons.prems(1) by auto
  have all: "\<forall>y\<in>set ((pre @ [x]) @ xs). \<not> isnan y" using Cons.prems(1) by simp
  show ?case
  proof (cases "flt x ?b")
    case True
    have fm: "first_minimum (pre @ [x]) (length pre)"
      unfolding first_minimum_def
    proof (intro conjI allI impI)
      show "length pre < length (pre @ [x])" by simp
      fix j assume j: "j < length (pre @ [x])"
      show "\<not> flt ((pre @ [x]) ! j) ((pre @ [x]) ! length pre)"
      proof (cases "j < length pre")
        case jl: True
        have "\<not> flt (pre ! j) x"
        proof
          assume "flt (pre ! j) x"
          then have "flt (pre ! j) ?b" using True by (rule flt_trans)
          with mn[OF jl] show False by simp
        qed
        then show ?thesis using jl by (simp add: nth_append)
      next
        case False
        then have "j = length pre" using j by simp
        then show ?thesis by (simp add: flt_irrefl)
      qed
    next
      fix j assume j: "j < length pre"
      have "flt x (pre ! j)"
        by (rule flt_le_trans[OF _ nn(1)[OF j] True mn[OF j]]) (rule nn(1)[OF bi])
      then show "flt ((pre @ [x]) ! length pre) ((pre @ [x]) ! j)"
        using j by (simp add: nth_append)
    qed
    have "first_minimum ((pre @ [x]) @ xs) (argmin_from xs (length (pre @ [x])) (length pre) ((pre @ [x]) ! length pre))"
      by (rule Cons.IH[OF all fm])
    then show ?thesis using True by simp
  next
    case False
    have fm: "first_minimum (pre @ [x]) bi"
      unfolding first_minimum_def
    proof (intro conjI allI impI)
      show "bi < length (pre @ [x])" using bi by simp
      fix j assume j: "j < length (pre @ [x])"
      show "\<not> flt ((pre @ [x]) ! j) ((pre @ [x]) ! bi)"
      proof (cases "j < length pre")
        case True
        then show ?thesis using mn bi by (simp add: nth_append)
      next
        case jl: False
        then have "j = length pre" using j by simp
        then show ?thesis using False bi by (simp add: nth_append)
      qed
    next
      fix j assume "j < bi"
      then show "flt ((pre @ [x]) ! bi) ((pre @ [x]) ! j)"
        using fs bi by (simp add: nth_append)
    qed
    have "first_minimum ((pre @ [x]) @ xs) (argmin_from xs (length (pre @ [x])) bi ((pre @ [x]) ! bi))"
      by (rule Cons.IH[OF all fm])
    then show ?thesis using False bi by (simp add: nth_append)
  qed
qed

lemma argmin_first_minimum:
  assumes "ys \<noteq> []" "\<forall>y\<in>set ys. \<not> isnan y"
  shows "first_minimum ys (argmin ys)"
proof -
  from assms(1) obtain y rest where ys: "ys = y # rest" by (cases ys) auto
  have "first_minimum [y] 0" by (simp add: first_minimum_def flt_irrefl)
  from argmin_from_first_minimum[of "[y]" rest 0] assms(2) this
  show ?thesis by (simp add: ys argmin_def)
qed

lemma nanargmin_first_minimum:
  assumes "nanargmin xs = Some k"
  shows "first_minimum (map nan_to_inf xs) k"
proof -
  from assms have k: "k = argmin (map nan_to_inf xs)" and ne: "\<not> list_all isnan xs"
    by (auto simp: nanargmin_def split: if_splits)
  from ne have "map nan_to_inf xs \<noteq> []" by auto
  then show ?thesis unfolding k by (rule argmin_first_minimum) simp
qed

lemma nanargmin_Some: "\<not> list_all isnan xs \<Longrightarrow> \<exists>k. nanargmin xs = Some k"
  by (simp add: nanargmin_def)

lemma is_finite_conv: "is_finite x \<longleftrightarrow> (\<exists>a. x = Fin a)"
  by (cases x) simp_all

lemma set_insert_sorted [simp]: "set (insert_sorted x ys) = insert x (set ys)"
  by (induction ys) auto

lemma length_insert_sorted [simp]: "length (insert_sorted x ys) = Suc (length ys)"
  by (induction ys) auto

lemma set_sort_fl [simp]: "set (sort_fl xs) = set xs"
  by (induction xs) (simp_all add: sort_fl_def)

lemma length_sort_fl [simp]: "length (sort_fl xs) = length xs"
  by (induction xs) (simp_all add: sort_fl_def)

lemma sort_fl_Nil_iff [simp]: "sort_fl xs = [] \<longleftrightarrow> xs = []"
  using length_sort_fl[of xs] by (metis length_0_conv)

lemma lerp_finite: "is_finite a \<Longrightarrow> is_finite b \<Longrightarrow> is_finite (lerp a b t)"
  by (cases a; cases b) (simp_all add: lerp_def fsub_def Let_def)

lemma nanpercentile_finite:
  assumes fn: "finite_or_nan xs" and ex: "\<exists>x\<in>set xs. is_finite x" and q: "0 \<le> q" "q \<le> 100"
  shows "is_finite (nanpercentile xs q)"
proof -
  let ?vs = "sort_fl (filter (\<lambda>x. \<not> isnan x) xs)"
  let ?n = "length ?vs"
  have fin: "\<And>x. x \<in> set ?vs \<Longrightarrow> is_finite x"
    using fn by (auto simp: finite_or_nan_def list_all_iff)
  from ex obtain x where x: "x \<in> set xs" "is_finite x" by blast
  from x(2) have "\<not> isnan x" by (auto simp: is_finite_conv)
  with x(1) have "x \<in> set ?vs" by simp
  then have n: "0 < ?n" by (cases ?vs) auto
  let ?vi = "q / 100 * real (?n - 1)"
  have vi: "0 \<le> ?vi" "?vi \<le> real (?n - 1)"
  proof -
    show "0 \<le> ?vi" using q(1) by simp
    have "q / 100 \<le> 1" using q(2) by simp
    then have "q / 100 * real (?n - 1) \<le> 1 * real (?n - 1)"
      by (rule mult_right_mono) simp
    then show "?vi \<le> real (?n - 1)" by simp
  qed
  have "\<lfloor>?vi\<rfloor> \<le> int (?n - 1)" using vi(2) by (simp add: floor_le_iff)
  then have p: "nat \<lfloor>?vi\<rfloor> < ?n" using n by linarith
  have "min (nat \<lfloor>?vi\<rfloor> + 1) (?n - 1) \<le> ?n - 1" by (rule min.cobounded2)
  then have nx: "min (nat \<lfloor>?vi\<rfloor> + 1) (?n - 1) < ?n" using n by linarith
  have "is_finite (lerp (?vs ! nat \<lfloor>?vi\<rfloor>) (?vs ! min (nat \<lfloor>?vi\<rfloor> + 1) (?n - 1)) (?vi - real (nat \<lfloor>?vi\<rfloor>)))"
    by (rule lerp_finite) (rule fin, rule nth_mem, rule p nx)+
  then show ?thesis
    using n by (simp add: nanpercentile_def Let_def)
qed

lemma length_get_median_outliers_errors [simp]:
  "length (get_median_outliers_errors der) = length der"
  by (simp add: get_median_outliers_errors_def Let_def)

lemma penalty_finite:
  assumes fn: "finite_or_nan der" and k: "k < length der" "is_finite (der ! k)"
  shows "is_finite (get_median_outliers_errors der ! k)"
proof -
  have ex: "\<exists>x\<in>set der. is_finite x" using k by (auto intro: nth_mem)
  obtain d where d: "der ! k = Fin d" using k(2) by (auto simp: is_finite_conv)
  obtain med where med: "nanpercentile der 50 = Fin med"
    using nanpercentile_finite[OF fn ex, of 50] by (auto simp: is_finite_conv)
  show ?thesis
    using k(1) by (simp add: get_median_outliers_errors_def Let_def d med fsub_def)
qed

lemma all_nan_entry_iff: "all_nan_entry errs \<longleftrightarrow> (\<forall>x\<in>set errs. isnan x)"
proof -
  have "length (filter isnan errs) = length errs \<longleftrightarrow> filter isnan errs = errs"
    by (metis length_filter_less filter_True less_irrefl filter_id_conv)
  then show ?thesis by (simp add: all_nan_entry_def filter_id_conv)
qed

lemma finite_or_nan_update:
  "finite_or_nan xs \<Longrightarrow> is_finite v \<Longrightarrow> finite_or_nan (xs[k := v])"
  unfolding finite_or_nan_def list_all_iff
  by (auto dest!: subsetD[OF set_update_subset_insert])

lemma sentinel_entry_selected:
  assumes an: "all_nan_entry errs" and ne: "errs \<noteq> []" and len: "length ders = length errs"
    and fn: "finite_or_nan ders"
  shows "nanargmin (penalised_errors ders errs) = Some 0" "is_finite (penalised_errors ders errs ! 0)"
proof -
  let ?d = "ders[0 := Fin 0]" and ?e = "errs[0 := Fin 0]"
  let ?pe = "penalised_errors ders errs"
  have pos: "0 < length errs" "0 < length ders" using ne len by simp_all
  have fd: "finite_or_nan ?d" using fn by (rule finite_or_nan_update) simp
  have pen0: "is_finite (get_median_outliers_errors ?d ! 0)"
    by (rule penalty_finite[OF fd]) (use pos in simp_all)
  have pe: "?pe = map (\<lambda>(x, y). fadd x y) (zip ?e (get_median_outliers_errors ?d))"
    using an by (simp add: penalised_errors_def with_sentinel_def zero_fl_def)
  have lpe: "length ?pe = length errs" unfolding pe using len by simp
  have pe0: "?pe ! 0 = fadd (Fin 0) (get_median_outliers_errors ?d ! 0)"
    unfolding pe using pos len by simp
  show fin0: "is_finite (?pe ! 0)"
    using pen0 unfolding pe0 by (auto simp: is_finite_conv)
  have rest: "isnan (?pe ! k)" if "0 < k" "k < length errs" for k
  proof -
    have "isnan (errs ! k)" using an that by (simp add: all_nan_entry_iff)
    then have "errs ! k = NaN" by (cases "errs ! k") simp_all
    then show ?thesis unfolding pe using that len by simp
  qed
  have "\<not> list_all isnan ?pe"
  proof
    assume "list_all isnan ?pe"
    then have "isnan (?pe ! 0)" using pos lpe by (simp add: list_all_length)
    with fin0 show False by (auto simp: is_finite_conv)
  qed
  then obtain r where r: "nanargmin ?pe = Some r" using nanargmin_Some by blast
  from nanargmin_first_minimum[OF r]
  have rl: "r < length errs" and mn: "\<not> flt (nan_to_inf (?pe ! 0)) (nan_to_inf (?pe ! r))"
    using pos lpe by (auto simp: first_minimum_def)
  have "r = 0"
  proof (rule ccontr)
    assume "r \<noteq> 0"
    then have "isnan (?pe ! r)" using rest rl by simp
    then have "nan_to_inf (?pe ! r) = PInf" by (simp add: nan_to_inf_def)
    moreover obtain a where "?pe ! 0 = Fin a" using fin0 by (auto simp: is_finite_conv)
    ultimately show False using mn by (simp add: nan_to_inf_def)
  qed
  then show "nanargmin ?pe = Some 0" using r by simp
qed

lemma isnan_conv: "isnan x \<longleftrightarrow> x = NaN"
  by (cases x) simp_all

lemma fadd_NaN_right [simp]: "fadd x NaN = NaN"
  by (cases x) simp_all

lemma fsub_NaN [simp]: "fsub NaN x = NaN" "fsub x NaN = NaN"
  by (simp_all add: fsub_def)

lemma fmul_NaN_right [simp]: "fmul x NaN = NaN"
  by (cases x) simp_all

lemma fle_NaN [simp]: "\<not> fle NaN x" "\<not> fle x NaN"
  by (cases x, simp_all add: fle_def)+

lemma wynn_error_nan:
  assumes "isnan (if conv then v2 else r)"
  shows "isnan (fadd (fadd e0 (fabs (fsub v2 v1)))
                  (if conv then t else fabs (fsub (if conv then v2 else r) v2)))"
  using assms by (cases conv) (simp_all add: isnan_conv)

lemma wynn_step_nan:
  assumes "isnan (fst (wynn_step rt row i))"
  shows "isnan (snd (wynn_step rt row i))"
  using assms unfolding wynn_step_def Let_def fst_conv snd_conv
  by (rule wynn_error_nan)

lemma compute_richardson_errors_nan:
  assumes "conv_ind < nmr_convolutions - 1" "isnan (ex ! conv_ind)"
  shows "isnan (compute_richardson_errors rt nmr_steps nmr_convolutions c row ex ! conv_ind)"
  using assms by (simp add: compute_richardson_errors_def Let_def isnan_conv)

lemma all_nan_entry_nth: "all_nan_entry errs \<longleftrightarrow> (\<forall>c<length errs. isnan (errs ! c))"
  by (simp add: all_nan_entry_iff all_set_conv_all_nth)

lemma wynn_extrapolate_nan:
  assumes "wynn_extrapolate rt W = Some (X, Er)" "i < length W" "j < length (W ! i)"
    and "list_all isnan (X ! i ! j)"
  shows "all_nan_entry (Er ! i ! j)"
proof -
  let ?n = "nat (int (shape2 W) - 2)"
  from assms(1) have X: "X = map (map (\<lambda>row. map (\<lambda>c. fst (wynn_step rt row c)) [0..<?n])) W"
    and Er: "Er = map (map (\<lambda>row. map (\<lambda>c. snd (wynn_step rt row c)) [0..<?n])) W"
    by (auto simp: wynn_extrapolate_def Let_def split: if_splits)
  have x: "X ! i ! j = map (\<lambda>c. fst (wynn_step rt (W ! i ! j) c)) [0..<?n]"
    and e: "Er ! i ! j = map (\<lambda>c. snd (wynn_step rt (W ! i ! j) c)) [0..<?n]"
    using assms(2,3) by (simp_all add: X Er)
  show ?thesis
    using assms(4) unfolding x e all_nan_entry_nth
    by (auto simp: list_all_length intro: wynn_step_nan)
qed

lemma richardson_extrapolation_nan:
  assumes "richardson_extrapolation rt D r = Some (R, E)" "i < length D" "j < length (D ! i)"
    and "list_all isnan (R ! i ! j)"
  shows "all_nan_entry (E ! i ! j)"
proof -
  from assms(1) obtain c where c: "get_richardson_coefficients rt r (min (shape2 D) 3 - 1) = Some c"
    by (auto simp: richardson_extrapolation_def split: bind_splits if_splits)
  let ?need = "int (shape2 D) - (int (length c) - 2)"
  let ?conv = "\<lambda>row. apply_richardson_convolution (shape2 D) (nat ?need) c row"
  from assms(1) c have ok: "\<not> (?need < 0 \<or> ?need - 1 < 0)"
    and R: "R = map (map (\<lambda>row. py_slice_to (?conv row) (?need - 1))) D"
    and E: "E = map (map (\<lambda>row. compute_richardson_errors rt (shape2 D) (nat ?need) c row (?conv row))) D"
    by (auto simp: richardson_extrapolation_def split: bind_splits if_splits)
  let ?row = "D ! i ! j"
  have nn: "nat (?need - 1) = nat ?need - 1" using ok by linarith
  have "R ! i ! j = py_slice_to (?conv ?row) (?need - 1)"
    using assms(2,3) by (simp add: R)
  also have "\<dots> = take (nat (?need - 1)) (?conv ?row)"
  proof -
    have "\<not> ?need - 1 < 0" using ok by blast
    then show ?thesis unfolding py_slice_to_def by (rule if_not_P)
  qed
  finally have x: "R ! i ! j = take (nat ?need - 1) (?conv ?row)"
    by (simp only: nn)
  have e: "E ! i ! j = compute_richardson_errors rt (shape2 D) (nat ?need) c ?row (?conv ?row)"
    using assms(2,3) by (simp add: E)
  have "isnan (E ! i ! j ! k)" if k: "k < nat ?need - 1" for k
  proof -
    have "isnan (R ! i ! j ! k)" using assms(4) k unfolding x by (simp add: list_all_length)
    then have "isnan (?conv ?row ! k)" using k unfolding x by simp
    then show ?thesis unfolding e using k by (intro compute_richardson_errors_nan)
  qed
  then show ?thesis
    unfolding all_nan_entry_nth by (simp add: e)
qed

text \<open>
  In the pipeline an entry whose candidates are all NaN has errors that are all NaN: the
  test of the selection on the errors covers the entries without a candidate that is a
  number.
\<close>

lemma extrapolate_candidates_nan:
  assumes "extrapolate_candidates rt D r = Some (X, Er)" "i < length D" "j < length (D ! i)"
    and "list_all isnan (X ! i ! j)"
  shows "all_nan_entry (Er ! i ! j)"
proof -
  from assms(1) obtain R E where RE: "richardson_extrapolation rt D r = Some (R, E)"
    and W: "(if shape2 R > 2 then wynn_extrapolate rt R else Some (R, E)) = Some (X, Er)"
    by (auto simp: extrapolate_candidates_def split: bind_splits)
  show ?thesis
  proof (cases "shape2 R > 2")
    case True
    have lR: "length R = length D" "length (R ! i) = length (D ! i)"
      using RE assms(2) by (auto simp: richardson_extrapolation_def split: bind_splits if_splits)
    from True W have "wynn_extrapolate rt R = Some (X, Er)" by simp
    then show ?thesis
      by (rule wynn_extrapolate_nan) (use lR assms in simp_all)
  next
    case False
    with W have "X = R" "Er = E" by simp_all
    then show ?thesis using richardson_extrapolation_nan[OF RE assms(2,3)] assms(4) by simp
  qed
qed

text \<open>
  Claim C8.  For an entry whose error candidates are all NaN, the first candidate of the
  derivatives is set to zero in the array (the sentinel), and when the selection returns,
  the returned derivative and the returned error of that entry are NaN, not the zero of
  the sentinel.
\<close>

theorem all_nan_entry_returns_nan:
  "same_entries D E \<and> i < length E \<and> j < length (E ! i) \<and> all_nan_entry (E ! i ! j) \<longrightarrow>
     fst (fst (median_outlier_extrapolation D E)) ! i ! j = (D ! i ! j)[0 := Fin 0] \<and>
     (E ! i ! j \<noteq> [] \<and> length (D ! i ! j) = length (E ! i ! j) \<and> finite_or_nan (D ! i ! j) \<longrightarrow>
        nanargmin (snd (fst (median_outlier_extrapolation D E)) ! i ! j) = Some 0) \<and>
     (snd (median_outlier_extrapolation D E) = Some (Df, Ef) \<longrightarrow>
        Df ! i ! j = NaN \<and> Ef ! i ! j = NaN \<and> Df ! i ! j \<noteq> Fin 0 \<and> Ef ! i ! j \<noteq> Fin 0)"
proof
  assume a: "same_entries D E \<and> i < length E \<and> j < length (E ! i) \<and> all_nan_entry (E ! i ! j)"
  then have se: "same_entries D E" and ij: "i < length E" "j < length (E ! i)"
    and an: "all_nan_entry (E ! i ! j)"
    by simp_all
  have st: "fst (fst (median_outlier_extrapolation D E)) ! i ! j = (D ! i ! j)[0 := Fin 0]"
    using median_state_derivatives[OF se ij] an by (simp add: with_sentinel_def zero_fl_def)
  have sel: "nanargmin (snd (fst (median_outlier_extrapolation D E)) ! i ! j) = Some 0"
    if "E ! i ! j \<noteq> []" "length (D ! i ! j) = length (E ! i ! j)" "finite_or_nan (D ! i ! j)"
    unfolding median_state_errors[OF se ij]
    by (rule sentinel_entry_selected(1)[OF an that])
  have fin: "Df ! i ! j = NaN \<and> Ef ! i ! j = NaN \<and> Df ! i ! j \<noteq> Fin 0 \<and> Ef ! i ! j \<noteq> Fin 0"
    if res: "snd (median_outlier_extrapolation D E) = Some (Df, Ef)"
    using median_result[OF se ij res] an by auto
  show "fst (fst (median_outlier_extrapolation D E)) ! i ! j = (D ! i ! j)[0 := Fin 0] \<and>
     (E ! i ! j \<noteq> [] \<and> length (D ! i ! j) = length (E ! i ! j) \<and> finite_or_nan (D ! i ! j) \<longrightarrow>
        nanargmin (snd (fst (median_outlier_extrapolation D E)) ! i ! j) = Some 0) \<and>
     (snd (median_outlier_extrapolation D E) = Some (Df, Ef) \<longrightarrow>
        Df ! i ! j = NaN \<and> Ef ! i ! j = NaN \<and> Df ! i ! j \<noteq> Fin 0 \<and> Ef ! i ! j \<noteq> Fin 0)"
    using st sel fin by blast
qed

lemma ex_all_nan_selection:
  "median_outlier_extrapolation [[[NaN, NaN], [Fin 1, Fin 3]]] [[[NaN, NaN], [Fin 2, Fin 1]]] =
     (([[[Fin 0, NaN], [Fin 1, Fin 3]]], [[[Fin 0, NaN], [Fin 2, Fin 1]]]),
      Some ([[NaN, Fin 3]], [[NaN, Fin 1]]))"
  by code_simp

theorem all_nan_entry_returns_nan_witness:
  "snd (median_outlier_extrapolation [[[NaN, NaN], [Fin 1, Fin 3]]] [[[NaN, NaN], [Fin 2, Fin 1]]]) =
     Some ([[NaN, Fin 3]], [[NaN, Fin 1]]) \<and>
   fst (fst (median_outlier_extrapolation [[[NaN, NaN], [Fin 1, Fin 3]]] [[[NaN, NaN], [Fin 2, Fin 1]]])) ! 0 ! 0 =
     [Fin 0, NaN] \<and>
   nanargmin (snd (fst (median_outlier_extrapolation [[[NaN, NaN], [Fin 1, Fin 3]]] [[[NaN, NaN], [Fin 2, Fin 1]]])) ! 0 ! 0) =
     Some 0 \<and>
   [[NaN, Fin 3]] ! 0 ! 0 = NaN \<and> [[NaN, Fin 1]] ! 0 ! 0 = NaN"
proof -
  have h: "same_entries [[[NaN, NaN], [Fin 1, Fin 3]]] [[[NaN, NaN], [Fin 2, Fin 1]]]"
    by (simp add: same_entries_def)
  have an: "all_nan_entry ([[[NaN, NaN], [Fin 2, Fin 1]]] ! 0 ! 0)"
    by (simp add: all_nan_entry_def)
  note t = all_nan_entry_returns_nan[of "[[[NaN, NaN], [Fin 1, Fin 3]]]" "[[[NaN, NaN], [Fin 2, Fin 1]]]"
      0 0 "[[NaN, Fin 3]]" "[[NaN, Fin 1]]"]
  have fn: "finite_or_nan ([[[NaN, NaN], [Fin 1, Fin 3]]] ! 0 ! 0)"
    by (simp add: finite_or_nan_def)
  from t h an fn show ?thesis by (simp add: ex_all_nan_selection)
qed

text \<open>
  Claim C10.  The selection changes the arrays of its caller.  After the call (also when
  it raises at \<open>np.nanargmin\<close>) every entry of the derivatives whose errors were all NaN has
  its first candidate replaced by zero, and every entry of the errors holds the errors
  (with the same replacement) plus the outlier penalties of the entry.  An entry with NaN
  errors only and a first derivative candidate that is NaN is therefore changed in both
  arrays (for the errors, when the derivative candidates of the entry are finite or NaN, so
  that the penalty of the first candidate is a number).
\<close>

theorem selection_mutates_inputs:
  "same_entries D E \<and> i < length E \<and> j < length (E ! i) \<longrightarrow>
     fst (fst (median_outlier_extrapolation D E)) ! i ! j =
       (if all_nan_entry (E ! i ! j) then (D ! i ! j)[0 := Fin 0] else D ! i ! j) \<and>
     snd (fst (median_outlier_extrapolation D E)) ! i ! j =
       map (\<lambda>(e, penalty). fadd e penalty)
         (zip (if all_nan_entry (E ! i ! j) then (E ! i ! j)[0 := Fin 0] else E ! i ! j)
              (get_median_outliers_errors (fst (fst (median_outlier_extrapolation D E)) ! i ! j))) \<and>
     (all_nan_entry (E ! i ! j) \<and> length (D ! i ! j) = length (E ! i ! j) \<and> E ! i ! j \<noteq> [] \<and>
      isnan (D ! i ! j ! 0) \<and> finite_or_nan (D ! i ! j) \<longrightarrow>
        fst (fst (median_outlier_extrapolation D E)) \<noteq> D \<and>
        snd (fst (median_outlier_extrapolation D E)) \<noteq> E)"
proof
  assume a: "same_entries D E \<and> i < length E \<and> j < length (E ! i)"
  then have se: "same_entries D E" and ij: "i < length E" "j < length (E ! i)"
    by simp_all
  let ?D' = "fst (fst (median_outlier_extrapolation D E))"
  let ?E' = "snd (fst (median_outlier_extrapolation D E))"
  have d: "?D' ! i ! j = (if all_nan_entry (E ! i ! j) then (D ! i ! j)[0 := Fin 0] else D ! i ! j)"
    using median_state_derivatives[OF se ij] by (simp add: with_sentinel_def zero_fl_def)
  have e: "?E' ! i ! j = map (\<lambda>(e, penalty). fadd e penalty)
         (zip (if all_nan_entry (E ! i ! j) then (E ! i ! j)[0 := Fin 0] else E ! i ! j)
              (get_median_outliers_errors (?D' ! i ! j)))"
    unfolding median_state_errors[OF se ij] median_state_derivatives[OF se ij]
    by (simp add: penalised_errors_def with_sentinel_def zero_fl_def)
  have ch: "?D' \<noteq> D \<and> ?E' \<noteq> E"
    if an: "all_nan_entry (E ! i ! j)" and len: "length (D ! i ! j) = length (E ! i ! j)"
      and ne: "E ! i ! j \<noteq> []" and nan: "isnan (D ! i ! j ! 0)" and fn: "finite_or_nan (D ! i ! j)"
  proof
    have pos: "0 < length (D ! i ! j)" using len ne by simp
    have "?D' ! i ! j ! 0 = Fin 0" using d an pos by simp
    moreover have "D ! i ! j ! 0 \<noteq> Fin 0" using nan by (cases "D ! i ! j ! 0") simp_all
    ultimately have "?D' ! i ! j ! 0 \<noteq> D ! i ! j ! 0" by simp
    then show "?D' \<noteq> D" by auto
    have "isnan (E ! i ! j ! 0)" using an ne by (simp add: all_nan_entry_iff)
    moreover have "is_finite (?E' ! i ! j ! 0)"
      unfolding median_state_errors[OF se ij] by (rule sentinel_entry_selected(2)[OF an ne len fn])
    ultimately have "?E' ! i ! j ! 0 \<noteq> E ! i ! j ! 0" by (auto simp: is_finite_conv)
    then show "?E' \<noteq> E" by auto
  qed
  show "?D' ! i ! j = (if all_nan_entry (E ! i ! j) then (D ! i ! j)[0 := Fin 0] else D ! i ! j) \<and>
     ?E' ! i ! j = map (\<lambda>(e, penalty). fadd e penalty)
         (zip (if all_nan_entry (E ! i ! j) then (E ! i ! j)[0 := Fin 0] else E ! i ! j)
              (get_median_outliers_errors (?D' ! i ! j))) \<and>
     (all_nan_entry (E ! i ! j) \<and> length (D ! i ! j) = length (E ! i ! j) \<and> E ! i ! j \<noteq> [] \<and>
      isnan (D ! i ! j ! 0) \<and> finite_or_nan (D ! i ! j) \<longrightarrow> ?D' \<noteq> D \<and> ?E' \<noteq> E)"
    using d e ch by blast
qed

lemma ex_outlier_selection:
  "median_outlier_extrapolation [[[Fin 1, Fin 1, Fin 1, Fin 50]]] [[[Fin 1, Fin 1, Fin 1, Fin (1 / 2)]]] =
     (([[[Fin 1, Fin 1, Fin 1, Fin 50]]], [[[Fin 1, Fin 1, Fin 1, Fin (99 / 2)]]]),
      Some ([[Fin 1]], [[Fin 1]]))"
  by code_simp

theorem selection_mutates_inputs_witness:
  "fst (median_outlier_extrapolation [[[NaN, NaN], [Fin 1, Fin 3]]] [[[NaN, NaN], [Fin 2, Fin 1]]]) =
     ([[[Fin 0, NaN], [Fin 1, Fin 3]]], [[[Fin 0, NaN], [Fin 2, Fin 1]]]) \<and>
   fst (fst (median_outlier_extrapolation [[[NaN, NaN], [Fin 1, Fin 3]]] [[[NaN, NaN], [Fin 2, Fin 1]]])) \<noteq>
     [[[NaN, NaN], [Fin 1, Fin 3]]] \<and>
   snd (fst (median_outlier_extrapolation [[[NaN, NaN], [Fin 1, Fin 3]]] [[[NaN, NaN], [Fin 2, Fin 1]]])) \<noteq>
     [[[NaN, NaN], [Fin 2, Fin 1]]] \<and>
   snd (fst (median_outlier_extrapolation [[[Fin 1, Fin 1, Fin 1, Fin 50]]] [[[Fin 1, Fin 1, Fin 1, Fin (1 / 2)]]])) =
     [[[Fin 1, Fin 1, Fin 1, Fin (99 / 2)]]]"
proof -
  have h: "same_entries [[[NaN, NaN], [Fin 1, Fin 3]]] [[[NaN, NaN], [Fin 2, Fin 1]]]"
    by (simp add: same_entries_def)
  have an: "all_nan_entry ([[[NaN, NaN], [Fin 2, Fin 1]]] ! 0 ! 0)"
    by (simp add: all_nan_entry_def)
  have fn: "finite_or_nan ([[[NaN, NaN], [Fin 1, Fin 3]]] ! 0 ! 0)"
    by (simp add: finite_or_nan_def)
  note t = selection_mutates_inputs[of "[[[NaN, NaN], [Fin 1, Fin 3]]]" "[[[NaN, NaN], [Fin 2, Fin 1]]]" 0 0]
  from t h an fn
  have "fst (fst (median_outlier_extrapolation [[[NaN, NaN], [Fin 1, Fin 3]]] [[[NaN, NaN], [Fin 2, Fin 1]]])) \<noteq>
     [[[NaN, NaN], [Fin 1, Fin 3]]] \<and>
   snd (fst (median_outlier_extrapolation [[[NaN, NaN], [Fin 1, Fin 3]]] [[[NaN, NaN], [Fin 2, Fin 1]]])) \<noteq>
     [[[NaN, NaN], [Fin 2, Fin 1]]]"
    by simp
  then show ?thesis
    by (simp add: ex_all_nan_selection ex_outlier_selection)
qed

section \<open>Which candidate is selected\<close>
















section \<open>The older kernel: an initial point out of bounds\<close>

lemma first_step_search_found:
  "snd (snd (foldl (\<lambda>(first_step, step_sizes, first_step_found) i.
              if k_bound_check k data (x_input ! param_ind)
                   (fdiv first_step (k_parameter_scalings k ! param_ind)) param_ind
              then (first_step, step_sizes[param_ind := first_step], True)
              else (fdiv first_step (Fin 2), step_sizes, first_step_found))
       (fs, ss, True) is))"
  by (induction "is" arbitrary: fs ss) auto

lemma generate_grid_points_loop_True:
  "fst (generate_grid_points_loop k data x_input ps step_sizes True)"
proof (induction ps arbitrary: step_sizes)
  case Nil
  then show ?case by simp
next
  case (Cons p ps)
  obtain fs ss fo where s: "first_step_search k data x_input p (k_max_steps k ! p, step_sizes, True) = (fs, ss, fo)"
    by (cases "first_step_search k data x_input p (k_max_steps k ! p, step_sizes, True)") auto
  have "fo" using first_step_search_found[of k data x_input p "k_max_steps k ! p" step_sizes "[0..<10]"]
    s by (simp add: first_step_search_def)
  then show ?case using s Cons.IH by simp
qed

text \<open>
  A remark on \<open>_generate_grid_points\<close>: the flag \<open>first_step_found\<close> starts as \<open>true\<close> and
  is never set to \<open>false\<close>, so the function reports success whatever the bound check
  answers.
\<close>

lemma generate_grid_points_reports_success:
  "fst (generate_grid_points k data x_input step_sizes)"
  unfolding generate_grid_points_def by (rule generate_grid_points_loop_True)






end
